theory Spec2Isabelle
  imports Main
begin

section \<open>Runes, strings and values\<close>

text \<open>
  Go's \<^verbatim>\<open>rune\<close> is \<^verbatim>\<open>int32\<close>; the code only compares, shifts and masks runes, so a
  rune is an \<open>int\<close> here. A Go string is represented by the sequence of runes its
  \<^verbatim>\<open>for _, r := range str\<close> loop yields (the UTF-8 decoding belongs to the Go runtime;
  ill-formed bytes show up as U+FFFD). Output buffers are rune sequences as well:
  \<^verbatim>\<open>WriteRune\<close> appends one rune, \<^verbatim>\<open>WriteString\<close> and \<^verbatim>\<open>WriteByte\<close> are only used
  with ASCII text. Indices into a string (\<^verbatim>\<open>IndexByte\<close>, \<^verbatim>\<open>LastIndexByte\<close>, slicing)
  are used by the code only at the position of the ASCII bytes \<^verbatim>\<open>'\n'\<close> and \<^verbatim>\<open>'/'\<close>,
  where slicing the bytes and slicing the runes give the same pieces.
\<close>

type_synonym rune = int
type_synonym gostring = "rune list"

definition str :: "string \<Rightarrow> gostring" where
  "str cs = map of_char cs"

text \<open>
  Modelled from the spec: the type \<^verbatim>\<open>Level\<close> and its constants are declared outside
  \<^verbatim>\<open>src/\<close>. The spec orders the levels Debug < Info < Warn < Error < Fatal, has the
  "off" sentinel higher than all real levels, and the "no level" marker of \<^verbatim>\<open>Print\<close> is
  never filtered, so it is the greatest value. \<open>Level_ord\<close> is the position in that
  order; the source only compares levels, with \<^verbatim>\<open>>\<close> and \<^verbatim>\<open>!=\<close>.
\<close>

datatype Level = DebugLevel | InfoLevel | WarnLevel | ErrorLevel | FatalLevel | OffLevel | noLevel

fun Level_ord :: "Level \<Rightarrow> nat" where
  "Level_ord DebugLevel = 0"
| "Level_ord InfoLevel = 1"
| "Level_ord WarnLevel = 2"
| "Level_ord ErrorLevel = 3"
| "Level_ord FatalLevel = 4"
| "Level_ord OffLevel = 5"
| "Level_ord noLevel = 6"

text \<open>A \<^verbatim>\<open>time.Time\<close> instant.\<close>

datatype Time = UnixNano int

text \<open>
  A value of type \<^verbatim>\<open>interface{}\<close>, by dynamic type: \<^verbatim>\<open>nil\<close>, a \<^verbatim>\<open>string\<close>, a
  \<^verbatim>\<open>time.Time\<close>, a \<^verbatim>\<open>Level\<close>, or a value of any other type, which the code only
  ever prints: \<open>Other a b\<close> is a value for which \<^verbatim>\<open>fmt.Sprint\<close> gives \<open>a\<close> and
  \<^verbatim>\<open>fmt.Sprintf("%+v", _)\<close> gives \<open>b\<close>.
\<close>

datatype val = Nil | Str gostring | TimeV Time | LevelV Level | Other gostring gostring

section \<open>Escaping engine (text.go)\<close>

text \<open>
  \<^verbatim>\<open>unicode.IsPrint\<close>: for Latin-1 the standard library reads its property table
  (printable are U+0020..U+007E and U+00A1..U+00FF except the soft hyphen U+00AD);
  beyond Latin-1 it searches \<^verbatim>\<open>unicode.PrintRanges\<close>, which is the parameter \<open>pr\<close>.
\<close>

definition IsPrint :: "(rune \<Rightarrow> bool) \<Rightarrow> rune \<Rightarrow> bool" where
  "IsPrint pr r =
     (if 0 \<le> r \<and> r \<le> 0xFF
      then (0x20 \<le> r \<and> r \<le> 0x7E) \<or> (0xA1 \<le> r \<and> r \<noteq> 0xAD)
      else pr r)"

text \<open>\<^verbatim>\<open>utf8.ValidRune\<close>: in range and not a surrogate half.\<close>

definition ValidRune :: "rune \<Rightarrow> bool" where
  "ValidRune r = ((0 \<le> r \<and> r < 0xD800) \<or> (0xDFFF < r \<and> r \<le> 0x10FFFF))"

fun needsEscaping :: "(rune \<Rightarrow> bool) \<Rightarrow> gostring \<Rightarrow> bool" where
  "needsEscaping pr [] = False"
| "needsEscaping pr (b # s) = (if \<not> IsPrint pr b \<or> b = 0x22 then True else needsEscaping pr s)"

definition lowerhex :: gostring where
  "lowerhex = str ''0123456789abcdef''"

text \<open>\<^verbatim>\<open>lowerhex[r>>uint(s)&0xF]\<close> for each shift \<open>s\<close> of the loop, in order.\<close>

definition hexDigits :: "rune \<Rightarrow> nat list \<Rightarrow> gostring" where
  "hexDigits r shifts = map (\<lambda>s. lowerhex ! nat ((r div 2 ^ s) mod 16)) shifts"

text \<open>
  The body of the loop of \<^verbatim>\<open>escapeStringForOutput\<close>: what is appended to the builder
  for one rune. \<^verbatim>\<open>byte(r)\<close> is \<open>r mod 256\<close>; the backslash is 0x5C, the double quote 0x22.
\<close>

definition escapeRune :: "(rune \<Rightarrow> bool) \<Rightarrow> bool \<Rightarrow> rune \<Rightarrow> gostring" where
  "escapeRune pr escapeQuotes r =
     (if escapeQuotes \<and> r = 0x22 then [0x5C, 0x22]
      else if IsPrint pr r then [r]
      else if r = 0x07 then [0x5C, 0x61]
      else if r = 0x08 then [0x5C, 0x62]
      else if r = 0x0C then [0x5C, 0x66]
      else if r = 0x0A then [0x5C, 0x6E]
      else if r = 0x0D then [0x5C, 0x72]
      else if r = 0x09 then [0x5C, 0x74]
      else if r = 0x0B then [0x5C, 0x76]
      else if r < 0x20 then
        [0x5C, 0x78, lowerhex ! nat ((r mod 256) div 16), lowerhex ! nat ((r mod 256) mod 16)]
      else if \<not> ValidRune r then [0x5C, 0x75] @ hexDigits 0xFFFD [12, 8, 4, 0]
      else if r < 0x10000 then [0x5C, 0x75] @ hexDigits r [12, 8, 4, 0]
      else [0x5C, 0x55] @ hexDigits r [28, 24, 20, 16, 12, 8, 4, 0])"

definition escapeStringForOutput :: "(rune \<Rightarrow> bool) \<Rightarrow> gostring \<Rightarrow> bool \<Rightarrow> gostring" where
  "escapeStringForOutput pr s escapeQuotes =
     (if \<not> needsEscaping pr s then s
      else concat (map (escapeRune pr escapeQuotes) s))"

text \<open>
  A Go string is a sequence of bytes, and \<^verbatim>\<open>range\<close> reads it in steps: a step is either
  the well-formed UTF-8 encoding of a rune, or one byte that does not begin such an
  encoding, which \<^verbatim>\<open>range\<close> reads as U+FFFD (\<^verbatim>\<open>utf8.RuneError\<close>). \<open>gobytes\<close> is the string
  as this sequence of steps, \<open>runeOf\<close> what \<^verbatim>\<open>range\<close> yields for a step and \<open>bytesOf\<close> the
  bytes of the string. A string is well-formed UTF-8 when it has no \<open>Bad\<close> step.
\<close>

datatype gochar = Valid rune | Bad int

type_synonym gobytes = "gochar list"

fun runeOf :: "gochar \<Rightarrow> rune" where
  "runeOf (Valid r) = r"
| "runeOf (Bad b) = 0xFFFD"

text \<open>\<^verbatim>\<open>utf8.AppendRune\<close>: the UTF-8 encoding of a valid rune.\<close>

definition EncodeRune :: "rune \<Rightarrow> int list" where
  "EncodeRune r =
     (if r < 0x80 then [r]
      else if r < 0x800 then [0xC0 + r div 64, 0x80 + r mod 64]
      else if r < 0x10000 then [0xE0 + r div 4096, 0x80 + (r div 64) mod 64, 0x80 + r mod 64]
      else [0xF0 + r div 262144, 0x80 + (r div 4096) mod 64, 0x80 + (r div 64) mod 64,
            0x80 + r mod 64])"

fun bytesOf :: "gobytes \<Rightarrow> int list" where
  "bytesOf [] = []"
| "bytesOf (Valid r # s) = EncodeRune r @ bytesOf s"
| "bytesOf (Bad b # s) = b # bytesOf s"

text \<open>
  \<^verbatim>\<open>escapeStringForOutput\<close> on the string as Go holds it. The fast path returns the
  string itself, ill-formed bytes included. Otherwise the builder receives, for each
  rune that \<^verbatim>\<open>range\<close> yields, what \<open>escapeRune\<close> gives: ASCII text, or the rune itself
  through \<^verbatim>\<open>WriteRune\<close>, which writes its encoding (the rune comes from \<^verbatim>\<open>range\<close> and is
  valid). \<open>escapeStringForOutput\<close> above is this function on the runes.
\<close>

definition escapeStringForOutput_bytes :: "(rune \<Rightarrow> bool) \<Rightarrow> gobytes \<Rightarrow> bool \<Rightarrow> gobytes" where
  "escapeStringForOutput_bytes pr s escapeQuotes =
     (if \<not> needsEscaping pr (map runeOf s) then s
      else map Valid (concat (map (escapeRune pr escapeQuotes) (map runeOf s))))"

definition isNormal :: "rune \<Rightarrow> bool" where
  "isNormal r = (0x2D \<le> r \<and> r \<le> 0x7E)"

fun needsQuoting :: "gostring \<Rightarrow> bool" where
  "needsQuoting [] = False"
| "needsQuoting (r # s) = (if \<not> isNormal r then True else needsQuoting s)"

section \<open>Declarations the source uses but \<^verbatim>\<open>src/\<close> does not contain\<close>

text \<open>
  \<^verbatim>\<open>text.go\<close> and the logger refer to package-level constants, lipgloss styles and
  library functions that are not under \<^verbatim>\<open>src/\<close>. They are parameters of the model,
  collected in one record with the names the source uses:
  \<^item> the reserved keys \<^verbatim>\<open>TimestampKey\<close>, \<^verbatim>\<open>LevelKey\<close>, \<^verbatim>\<open>CallerKey\<close>, \<^verbatim>\<open>PrefixKey\<close>,
    \<^verbatim>\<open>MessageKey\<close> (the logger calls them \<^verbatim>\<open>tsKey\<close>, \<^verbatim>\<open>lvlKey\<close>, \<^verbatim>\<open>callerKey\<close>,
    \<^verbatim>\<open>prefixKey\<close>, \<^verbatim>\<open>msgKey\<close>);
  \<^item> the styles: field \<open>X\<close> is the function \<^verbatim>\<open>X.Renderer(l.re).Render\<close>, \<open>KeyStyles\<close> and
    \<open>ValueStyles\<close> are the per-key maps of such functions, and \<open>levelStyle lv\<close> is the
    string \<^verbatim>\<open>levelStyle(lv).Renderer(l.re).String()\<close>;
  \<^item> \<open>PrintRanges\<close>: membership in \<^verbatim>\<open>unicode.PrintRanges\<close> (see \<open>IsPrint\<close>);
  \<^item> \<open>Format\<close>: \<^verbatim>\<open>time.Time.Format\<close>; \<open>Time_String\<close> and \<open>Level_String\<close>: what the
    \<^verbatim>\<open>fmt\<close> verbs \<^verbatim>\<open>%v\<close> and \<^verbatim>\<open>%+v\<close> print for a time and for a level;
  \<^item> \<open>jsonFormatter\<close>: the bytes the JSON formatter leaves in the buffer.
\<close>

datatype error = IndexOutOfRange

record pkg =
  TimestampKey :: val
  LevelKey :: val
  CallerKey :: val
  PrefixKey :: val
  MessageKey :: val
  TimestampStyle :: "gostring \<Rightarrow> gostring"
  CallerStyle :: "gostring \<Rightarrow> gostring"
  PrefixStyle :: "gostring \<Rightarrow> gostring"
  MessageStyle :: "gostring \<Rightarrow> gostring"
  KeyStyle :: "gostring \<Rightarrow> gostring"
  ValueStyle :: "gostring \<Rightarrow> gostring"
  SeparatorStyle :: "gostring \<Rightarrow> gostring"
  KeyStyles :: "gostring \<rightharpoonup> (gostring \<Rightarrow> gostring)"
  ValueStyles :: "gostring \<rightharpoonup> (gostring \<Rightarrow> gostring)"
  levelStyle :: "Level \<Rightarrow> gostring"
  PrintRanges :: "rune \<Rightarrow> bool"
  Format :: "Time \<Rightarrow> gostring \<Rightarrow> gostring"
  Time_String :: "Time \<Rightarrow> gostring"
  Level_String :: "Level \<Rightarrow> gostring"
  jsonFormatter :: "val list \<Rightarrow> error + gostring"

text \<open>\<^verbatim>\<open>fmt.Sprint(v)\<close> and \<^verbatim>\<open>fmt.Sprintf("%+v", v)\<close>.\<close>

definition Sprint :: "pkg \<Rightarrow> val \<Rightarrow> gostring" where
  "Sprint P v =
     (case v of
        Nil \<Rightarrow> str ''<nil>''
      | Str s \<Rightarrow> s
      | TimeV t \<Rightarrow> Time_String P t
      | LevelV lv \<Rightarrow> Level_String P lv
      | Other a b \<Rightarrow> a)"

definition Sprintf_plus_v :: "pkg \<Rightarrow> val \<Rightarrow> gostring" where
  "Sprintf_plus_v P v =
     (case v of
        Nil \<Rightarrow> str ''<nil>''
      | Str s \<Rightarrow> s
      | TimeV t \<Rightarrow> Time_String P t
      | LevelV lv \<Rightarrow> Level_String P lv
      | Other a b \<Rightarrow> b)"

section \<open>Text renderer (text.go)\<close>

definition separator :: gostring where
  "separator = [0x3D]"

text \<open>Two spaces, U+2502 (box drawings light vertical), one space.\<close>

definition indentSeparator :: gostring where
  "indentSeparator = [0x20, 0x20, 0x2502, 0x20]"

text \<open>\<^verbatim>\<open>strings.IndexByte\<close>: the first index of \<open>c\<close>, or -1.\<close>

fun IndexByte :: "gostring \<Rightarrow> rune \<Rightarrow> int" where
  "IndexByte [] c = -1"
| "IndexByte (x # xs) c =
     (if x = c then 0 else (let i = IndexByte xs c in if i = -1 then -1 else i + 1))"

text \<open>
  \<^verbatim>\<open>writeIndent\<close> returns the bytes it writes to \<open>w\<close>. The last piece is styled with the
  per-key value style when there is one, the lines before it always with \<open>ValueStyle\<close>.
\<close>

function writeIndent :: "pkg \<Rightarrow> gostring \<Rightarrow> gostring \<Rightarrow> bool \<Rightarrow> gostring \<Rightarrow> gostring" where
  "writeIndent P s indent newline key =
     (let nl = IndexByte s 0x0A in
      if nl = -1 then
        (if s \<noteq> [] then
           indent
           @ (case ValueStyles P key of
                Some valueStyle \<Rightarrow> valueStyle (escapeStringForOutput (PrintRanges P) s False)
              | None \<Rightarrow> ValueStyle P (escapeStringForOutput (PrintRanges P) s False))
           @ (if newline then [0x0A] else [])
         else [])
      else
        indent
        @ ValueStyle P (escapeStringForOutput (PrintRanges P) (take (nat nl) s) False)
        @ [0x0A]
        @ writeIndent P (drop (nat nl + 1) s) indent newline key)"
  by pat_completeness auto
termination
proof (relation "measure (\<lambda>(P, s, indent, newline, key). length s)")
  show "wf (measure (\<lambda>(P, s, indent, newline, key). length s))"
    by simp
next
  fix P :: pkg and s indent :: gostring and newline :: bool and key :: gostring and nl :: int
  assume "nl = IndexByte s 0x0A" and "nl \<noteq> -1"
  then have "s \<noteq> []"
    by auto
  then show "((P, drop (nat nl + 1) s, indent, newline, key), (P, s, indent, newline, key))
      \<in> measure (\<lambda>(P, s, indent, newline, key). length s)"
    by (cases s) auto
qed

declare writeIndent.simps [simp del]

definition writeSpace :: "bool \<Rightarrow> gostring" where
  "writeSpace first = (if \<not> first then [0x20] else [])"

text \<open>
  The \<^verbatim>\<open>default\<close> case of the switch in \<^verbatim>\<open>textFormatter\<close> (a custom key): the bytes
  one loop iteration appends to the buffer \<^verbatim>\<open>l.b\<close>.
\<close>

definition textPair :: "pkg \<Rightarrow> bool \<Rightarrow> bool \<Rightarrow> val \<Rightarrow> val \<Rightarrow> gostring" where
  "textPair P firstKey moreKeys k v =
     (let sep = SeparatorStyle P separator;
          indentSep = SeparatorStyle P indentSeparator;
          key = Sprint P k;
          val0 = Sprintf_plus_v P v;
          raw = (val0 = []);
          val = (if raw then [0x22, 0x22] else val0)
      in if key = [] then []
         else
           (let actualKey = key;
                valueStyle = (case ValueStyles P actualKey of Some vs \<Rightarrow> vs | None \<Rightarrow> ValueStyle P);
                skey = (case KeyStyles P key of Some keyStyle \<Rightarrow> keyStyle key | None \<Rightarrow> KeyStyle P key)
            in if 0x0A \<in> set val then
                 [0x0A, 0x20, 0x20] @ skey @ (sep @ [0x0A])
                 @ writeIndent P val indentSep moreKeys actualKey
               else if \<not> raw \<and> needsQuoting val then
                 writeSpace firstKey @ skey @ sep
                 @ valueStyle ([0x22] @ escapeStringForOutput (PrintRanges P) val True @ [0x22])
               else
                 writeSpace firstKey @ skey @ sep @ valueStyle val))"

text \<open>The whole switch: one loop iteration on the key \<open>k = keyvals[i]\<close> and the value
  \<open>v = keyvals[i+1]\<close>; \<open>tf\<close> is \<^verbatim>\<open>l.timeFormat\<close>.\<close>

definition textField :: "pkg \<Rightarrow> gostring \<Rightarrow> bool \<Rightarrow> bool \<Rightarrow> val \<Rightarrow> val \<Rightarrow> gostring" where
  "textField P tf firstKey moreKeys k v =
     (if k = TimestampKey P then
        (case v of TimeV t \<Rightarrow> writeSpace firstKey @ TimestampStyle P (Format P t tf) | _ \<Rightarrow> [])
      else if k = LevelKey P then
        (case v of LevelV lv \<Rightarrow> writeSpace firstKey @ levelStyle P lv | _ \<Rightarrow> [])
      else if k = CallerKey P then
        (case v of Str c \<Rightarrow> writeSpace firstKey @ CallerStyle P ([0x3C] @ c @ [0x3E]) | _ \<Rightarrow> [])
      else if k = PrefixKey P then
        (case v of Str p \<Rightarrow> writeSpace firstKey @ PrefixStyle P (p @ [0x3A]) | _ \<Rightarrow> [])
      else if k = MessageKey P then
        (if v \<noteq> Nil then writeSpace firstKey @ MessageStyle P (Sprint P v) else [])
      else textPair P firstKey moreKeys k v)"

text \<open>
  The loop of \<^verbatim>\<open>textFormatter\<close>, with the index \<open>i\<close> and the buffer \<open>b\<close> as loop state.
  Every case of the switch reads \<^verbatim>\<open>keyvals[i+1]\<close>; when \<open>i + 1\<close> is past the end Go
  panics with an index out of range.
\<close>

function textFormatter_loop :: "pkg \<Rightarrow> gostring \<Rightarrow> val list \<Rightarrow> nat \<Rightarrow> gostring \<Rightarrow> error + gostring" where
  "textFormatter_loop P tf keyvals i b =
     (let lenKeyvals = length keyvals in
      if i < lenKeyvals then
        (let firstKey = (i = 0);
             moreKeys = (int i < int lenKeyvals - 2)
         in if i + 1 < lenKeyvals then
              textFormatter_loop P tf keyvals (i + 2)
                (b @ textField P tf firstKey moreKeys (keyvals ! i) (keyvals ! (i + 1)))
            else Inl IndexOutOfRange)
      else Inr b)"
  by pat_completeness auto
termination
  by (relation "measure (\<lambda>(P, tf, keyvals, i, b). length keyvals - i)") auto

declare textFormatter_loop.simps [simp del]

text \<open>\<^verbatim>\<open>textFormatter\<close> starts from the empty buffer (\<^verbatim>\<open>log\<close> resets it on return) and
  ends the line with a newline.\<close>

definition textFormatter :: "pkg \<Rightarrow> gostring \<Rightarrow> val list \<Rightarrow> error + gostring" where
  "textFormatter P tf keyvals =
     (case textFormatter_loop P tf keyvals 0 [] of
        Inl e \<Rightarrow> Inl e
      | Inr b \<Rightarrow> Inr (b @ [0x0A]))"

text \<open>
  The same loop as a recursion over the elements that remain from index \<open>i\<close> on:
  \<open>firstKey\<close> is \<open>i = 0\<close> and \<open>moreKeys\<close> says that elements remain after the pair.
  \<open>textFormatter_loop_pairs\<close> below proves that the two agree; the proofs use this form.
\<close>

fun textPairs :: "pkg \<Rightarrow> gostring \<Rightarrow> bool \<Rightarrow> val list \<Rightarrow> error + gostring" where
  "textPairs P tf firstKey [] = Inr []"
| "textPairs P tf firstKey [k] = Inl IndexOutOfRange"
| "textPairs P tf firstKey (k # v # rest) =
     (case textPairs P tf False rest of
        Inl e \<Rightarrow> Inl e
      | Inr out \<Rightarrow> Inr (textField P tf firstKey (rest \<noteq> []) k v @ out))"

section \<open>Caller resolver (logger)\<close>

text \<open>A \<^verbatim>\<open>runtime.Frame\<close>, with the three fields the code reads.\<close>

record Frame =
  File :: gostring
  Line :: int
  Function :: gostring

definition maxStackLen :: nat where
  "maxStackLen = 50"

text \<open>
  The loop of \<^verbatim>\<open>fillLoc\<close> over the captured frames. \<^verbatim>\<open>frames.Next()\<close> returns the next
  frame and whether more frames follow; on an empty capture it returns the zero frame
  and \<^verbatim>\<open>more = false\<close>.
\<close>

fun fillLoc_loop :: "gostring set \<Rightarrow> Frame list \<Rightarrow> Frame" where
  "fillLoc_loop hs [] = \<lparr>File = [], Line = 0, Function = []\<rparr>"
| "fillLoc_loop hs [frame] = frame"
| "fillLoc_loop hs (frame # nxt # rest) =
     (if \<not> (Function frame \<in> hs) then frame else fillLoc_loop hs (nxt # rest))"

text \<open>
  \<open>stack\<close> is the call stack at the call of \<^verbatim>\<open>fillLoc\<close>: the frames of its callers,
  innermost first. \<^verbatim>\<open>runtime.Callers(skip+2, pc[:])\<close> skips its own frame, the frame of
  \<^verbatim>\<open>fillLoc\<close> and \<open>skip\<close> more, and fills at most \<open>maxStackLen\<close> entries. The source's
  \<^verbatim>\<open>skip\<close> is an \<^verbatim>\<open>int\<close>; the model covers the non-negative ones.
\<close>

definition fillLoc :: "gostring set \<Rightarrow> Frame list \<Rightarrow> nat \<Rightarrow> gostring \<times> int \<times> gostring" where
  "fillLoc hs stack skip =
     (let frame = fillLoc_loop hs (take maxStackLen (drop skip stack))
      in (File frame, Line frame, Function frame))"

text \<open>\<^verbatim>\<open>strings.LastIndexByte\<close>: the last index of \<open>c\<close>, or -1.\<close>

fun LastIndexByte :: "gostring \<Rightarrow> rune \<Rightarrow> int" where
  "LastIndexByte [] c = -1"
| "LastIndexByte (x # xs) c =
     (let i = LastIndexByte xs c in if i \<noteq> -1 then i + 1 else if x = c then 0 else -1)"

definition trimCallerPath :: "gostring \<Rightarrow> gostring" where
  "trimCallerPath path =
     (let idx = LastIndexByte path 0x2F in
      if idx = -1 then path
      else (let idx2 = LastIndexByte (take (nat idx) path) 0x2F in
            if idx2 = -1 then path
            else drop (nat (idx2 + 1)) path))"

text \<open>The verb \<^verbatim>\<open>%d\<close> of \<^verbatim>\<open>fmt.Sprintf\<close>: decimal digits, with a minus sign.\<close>

fun digits :: "nat \<Rightarrow> gostring" where
  "digits n = (if n < 10 then [0x30 + int n] else digits (n div 10) @ [0x30 + int (n mod 10)])"

definition Itoa :: "int \<Rightarrow> gostring" where
  "Itoa i = (if i < 0 then 0x2D # digits (nat (- i)) else digits (nat i))"

section \<open>Logger (logger)\<close>

text \<open>\<^verbatim>\<open>l.w == io.Discard\<close> is all the code asks of the writer.\<close>

datatype Writer = Discard | Sink

datatype Formatter = TextFormatter | JSONFormatter

text \<open>
  The logger's fields, without the buffer (the output is returned), the mutex and the
  \<^verbatim>\<open>styles\<close> field (which \<^verbatim>\<open>log\<close> and the formatter never read). \<open>helpers\<close> is the key
  set of the \<^verbatim>\<open>sync.Map\<close>. \<open>callerOffset\<close> is a number of frames (see \<open>fillLoc\<close>).
\<close>

record logger =
  w :: Writer
  level :: Level
  prefix :: gostring
  timeFunc :: "unit \<Rightarrow> Time"
  timeFormat :: gostring
  callerOffset :: nat
  formatter :: Formatter
  caller :: bool
  noStyles :: bool
  timestamp :: bool
  keyvals :: "val list"
  helpers :: "gostring set"

text \<open>
  \<^verbatim>\<open>helper(skip)\<close> stores the name of the function \<open>skip\<close> frames above its caller.
  \<open>stack\<close> holds the frames of the callers of \<^verbatim>\<open>helper\<close>, innermost first;
  \<^verbatim>\<open>location(skip + 1)\<close> asks \<^verbatim>\<open>runtime.Caller(skip + 2)\<close>, where 0 is \<^verbatim>\<open>location\<close> and 1 is
  \<^verbatim>\<open>helper\<close>. Past the end of the stack \<^verbatim>\<open>runtime.FuncForPC\<close> gives nil, whose name is
  the empty string.
\<close>

definition helper :: "Frame list \<Rightarrow> logger \<Rightarrow> nat \<Rightarrow> logger" where
  "helper stack l skip =
     (let fn = (if skip < length stack then Function (stack ! skip) else [])
      in l\<lparr>helpers := insert fn (helpers l)\<rparr>)"

text \<open>\<^verbatim>\<open>Helper\<close>: \<open>stack\<close> holds the frames of the callers of \<^verbatim>\<open>Helper\<close>.\<close>

definition Helper :: "Frame list \<Rightarrow> logger \<Rightarrow> logger" where
  "Helper stack l = helper (\<lparr>File = [], Line = 0, Function = str ''Helper''\<rparr> # stack) l 1"

text \<open>\<^verbatim>\<open>With\<close>: the derived logger's fields are the parent's followed by the new ones. (A
  copy of the struct with a fresh buffer and mutex; whether \<^verbatim>\<open>append\<close> reuses the parent's
  backing array is not part of the model.)\<close>

definition With :: "logger \<Rightarrow> val list \<Rightarrow> logger" where
  "With l kvs = l\<lparr>keyvals := keyvals l @ kvs\<rparr>"

text \<open>The frame of \<^verbatim>\<open>log\<close> and those of the exported methods (\<open>methodFrame\<close> below) are
  always skipped, since \<^verbatim>\<open>log\<close> asks for \<open>callerOffset + 2\<close>; what they hold does not
  matter.\<close>

definition logFrame :: Frame where
  "logFrame = \<lparr>File = str ''logger.go'', Line = 222, Function = str ''log''\<rparr>"

text \<open>
  Lines 211 to 243 of \<^verbatim>\<open>log\<close>: the two local variables \<^verbatim>\<open>kvs\<close> and \<^verbatim>\<open>keyvals\<close> after
  the odd-length check. \<open>stack\<close> holds the frames of the callers of \<^verbatim>\<open>log\<close>, innermost
  first (its head is the exported method, \<^verbatim>\<open>Info\<close> and the like); for \<^verbatim>\<open>fillLoc\<close> the
  frame of \<^verbatim>\<open>log\<close> itself comes before them.
\<close>

definition log_kvs :: "pkg \<Rightarrow> Frame list \<Rightarrow> logger \<Rightarrow> Level \<Rightarrow> val \<Rightarrow> val list \<Rightarrow> val list \<times> val list" where
  "log_kvs P stack l lv msg keyvals0 =
     (let kvs = [];
          kvs = (if timestamp l then kvs @ [TimestampKey P, TimeV (timeFunc l ())] else kvs);
          kvs = (if lv \<noteq> noLevel then kvs @ [LevelKey P, LevelV lv] else kvs);
          kvs = (if caller l then
                   (case fillLoc (helpers l) (logFrame # stack) (callerOffset l + 2) of
                      (file, line, fn) \<Rightarrow>
                        kvs @ [CallerKey P,
                               Str ([0x3C] @ trimCallerPath file @ [0x3A] @ Itoa line @ [0x3E])])
                 else kvs);
          kvs = (if prefix l \<noteq> [] then kvs @ [PrefixKey P, Str (prefix l)] else kvs);
          kvs = (if msg \<noteq> Nil then kvs @ [MessageKey P, Str (Sprint P msg)] else kvs);
          kvs = kvs @ keyvals l;
          kvs = kvs @ keyvals0;
          keyvals1 = (if length keyvals0 mod 2 \<noteq> 0
                      then keyvals0 @ [Str (str ''MISSING_VALUE'')] else keyvals0)
      in (kvs, keyvals1))"

text \<open>
  \<^verbatim>\<open>log\<close>: \<open>Inr None\<close> when it returns before formatting (nothing is written),
  \<open>Inr (Some bytes)\<close> when \<open>bytes\<close> are written to the sink, \<open>Inl e\<close> when the formatter
  panics. The formatter is called with \<^verbatim>\<open>kvs\<close>. The text formatter here is \<^verbatim>\<open>textFormatter\<close>
  of \<^verbatim>\<open>text.go\<close>, the one text formatter under \<^verbatim>\<open>src/\<close>; for the caller field, where the
  formatter of the logger cannot be this one, see \<open>logger_callerField\<close> below.
\<close>

definition log :: "pkg \<Rightarrow> Frame list \<Rightarrow> logger \<Rightarrow> Level \<Rightarrow> val \<Rightarrow> val list \<Rightarrow> error + gostring option" where
  "log P stack l lv msg keyvals0 =
     (if w l = Discard then Inr None
      else if Level_ord (level l) > Level_ord lv then Inr None
      else
        (case log_kvs P stack l lv msg keyvals0 of
           (kvs, keyvals1) \<Rightarrow>
             (case (case formatter l of
                      JSONFormatter \<Rightarrow> jsonFormatter P kvs
                    | _ \<Rightarrow> textFormatter P (timeFormat l) kvs) of
                Inl e \<Rightarrow> Inl e
              | Inr b \<Rightarrow> Inr (Some b))))"

text \<open>The exported methods; \<open>stack\<close> holds the frames of their callers.\<close>

definition methodFrame :: "string \<Rightarrow> Frame" where
  "methodFrame name = \<lparr>File = str ''logger.go'', Line = 0, Function = str name\<rparr>"

definition Debug :: "pkg \<Rightarrow> Frame list \<Rightarrow> logger \<Rightarrow> val \<Rightarrow> val list \<Rightarrow> error + gostring option" where
  "Debug P stack l msg kvs = log P (methodFrame ''Debug'' # stack) l DebugLevel msg kvs"

definition Info :: "pkg \<Rightarrow> Frame list \<Rightarrow> logger \<Rightarrow> val \<Rightarrow> val list \<Rightarrow> error + gostring option" where
  "Info P stack l msg kvs = log P (methodFrame ''Info'' # stack) l InfoLevel msg kvs"

definition Warn :: "pkg \<Rightarrow> Frame list \<Rightarrow> logger \<Rightarrow> val \<Rightarrow> val list \<Rightarrow> error + gostring option" where
  "Warn P stack l msg kvs = log P (methodFrame ''Warn'' # stack) l WarnLevel msg kvs"

definition Error :: "pkg \<Rightarrow> Frame list \<Rightarrow> logger \<Rightarrow> val \<Rightarrow> val list \<Rightarrow> error + gostring option" where
  "Error P stack l msg kvs = log P (methodFrame ''Error'' # stack) l ErrorLevel msg kvs"



section \<open>Notions of the claims that the code does not define\<close>

text \<open>\<^verbatim>\<open>unicode.IsControl\<close>: the control characters are U+0000..U+001F and
  U+007F..U+009F.\<close>

definition IsControl :: "rune \<Rightarrow> bool" where
  "IsControl r = ((0 \<le> r \<and> r < 0x20) \<or> (0x7F \<le> r \<and> r < 0xA0))"

text \<open>
  The standard un-escaping the spec speaks of, after \<^verbatim>\<open>strconv.UnquoteChar(s, quote)\<close> run
  over the whole string. With \<open>quote\<close> the double quote, \<^verbatim>\<open>\"\<close> is read as a double quote
  and a raw double quote is a syntax error; with \<open>quote = 0\<close> a raw double quote is an
  ordinary character and \<^verbatim>\<open>\"\<close> is a syntax error. A backslash before anything but an
  escape, a short or non-hexadecimal \<^verbatim>\<open>\x\<close>, \<^verbatim>\<open>\u\<close>, \<^verbatim>\<open>\U\<close>, an invalid code point and an
  octal escape above 255 are syntax errors (\<open>None\<close>).
\<close>

definition unhex :: "rune \<Rightarrow> int option" where
  "unhex c =
     (if 0x30 \<le> c \<and> c \<le> 0x39 then Some (c - 0x30)
      else if 0x61 \<le> c \<and> c \<le> 0x66 then Some (c - 0x61 + 10)
      else if 0x41 \<le> c \<and> c \<le> 0x46 then Some (c - 0x41 + 10)
      else None)"

text \<open>\<^verbatim>\<open>v = v<<4 | x\<close> over the digits, from \<open>v\<close>.\<close>

fun unhexAll :: "int \<Rightarrow> gostring \<Rightarrow> int option" where
  "unhexAll v [] = Some v"
| "unhexAll v (c # cs) = (case unhex c of None \<Rightarrow> None | Some x \<Rightarrow> unhexAll (16 * v + x) cs)"

fun unoctAll :: "int \<Rightarrow> gostring \<Rightarrow> int option" where
  "unoctAll v [] = Some v"
| "unoctAll v (c # cs) =
     (if c - 0x30 < 0 \<or> c - 0x30 > 7 then None else unoctAll (8 * v + (c - 0x30)) cs)"

fun unescape :: "rune \<Rightarrow> gostring \<Rightarrow> gostring option" where
  "unescape quote [] = Some []"
| "unescape quote (c # cs) =
     (if c = quote \<and> (quote = 0x27 \<or> quote = 0x22) then None
      else if c \<noteq> 0x5C then map_option ((#) c) (unescape quote cs)
      else
        (case cs of
           [] \<Rightarrow> None
         | e # rest \<Rightarrow>
             if e = 0x61 then map_option ((#) 0x07) (unescape quote rest)
             else if e = 0x62 then map_option ((#) 0x08) (unescape quote rest)
             else if e = 0x66 then map_option ((#) 0x0C) (unescape quote rest)
             else if e = 0x6E then map_option ((#) 0x0A) (unescape quote rest)
             else if e = 0x72 then map_option ((#) 0x0D) (unescape quote rest)
             else if e = 0x74 then map_option ((#) 0x09) (unescape quote rest)
             else if e = 0x76 then map_option ((#) 0x0B) (unescape quote rest)
             else if e = 0x78 then
               (if length rest < 2 then None
                else (case unhexAll 0 (take 2 rest) of
                        None \<Rightarrow> None
                      | Some v \<Rightarrow> map_option ((#) v) (unescape quote (drop 2 rest))))
             else if e = 0x75 then
               (if length rest < 4 then None
                else (case unhexAll 0 (take 4 rest) of
                        None \<Rightarrow> None
                      | Some v \<Rightarrow>
                          if \<not> ValidRune v then None
                          else map_option ((#) v) (unescape quote (drop 4 rest))))
             else if e = 0x55 then
               (if length rest < 8 then None
                else (case unhexAll 0 (take 8 rest) of
                        None \<Rightarrow> None
                      | Some v \<Rightarrow>
                          if \<not> ValidRune v then None
                          else map_option ((#) v) (unescape quote (drop 8 rest))))
             else if 0x30 \<le> e \<and> e \<le> 0x37 then
               (if length rest < 2 then None
                else (case unoctAll (e - 0x30) (take 2 rest) of
                        None \<Rightarrow> None
                      | Some v \<Rightarrow>
                          if v > 255 then None
                          else map_option ((#) v) (unescape quote (drop 2 rest))))
             else if e = 0x5C then map_option ((#) 0x5C) (unescape quote rest)
             else if e = 0x27 \<or> e = 0x22 then
               (if e \<noteq> quote then None else map_option ((#) e) (unescape quote rest))
             else None))"

text \<open>The quote mode that reads back what \<^verbatim>\<open>escapeStringForOutput\<close> wrote: the double
  quote when \<^verbatim>\<open>escapeQuotes\<close> was true (the value then stands between double quotes), 0
  when it was false (the lines of a block stand bare).\<close>

definition quoteMode :: "bool \<Rightarrow> rune" where
  "quoteMode escapeQuotes = (if escapeQuotes then 0x22 else 0)"

text \<open>The un-escaping on the string as Go holds it: \<^verbatim>\<open>strconv.UnquoteChar\<close> decodes the
  string as \<^verbatim>\<open>range\<close> does, and the result is built from the runes it returns.\<close>

definition unescape_bytes :: "rune \<Rightarrow> gobytes \<Rightarrow> gobytes option" where
  "unescape_bytes quote s = map_option (map Valid) (unescape quote (map runeOf s))"

text \<open>
  The lines of a value, as \<^verbatim>\<open>strings.Split(s, "\n")\<close> gives them: the pieces between the
  newlines; a string that ends in a newline has an empty last piece.
\<close>

fun splitLines :: "gostring \<Rightarrow> gostring list" where
  "splitLines [] = [[]]"
| "splitLines (c # cs) =
     (if c = 0x0A then [] # splitLines cs
      else (c # hd (splitLines cs)) # tl (splitLines cs))"

text \<open>
  What each pair of an even-length sequence contributes to the line, in order: the
  loop body applied to the pair. \<open>firstKey\<close> holds for the first pair if nothing was
  rendered before the sequence; \<open>after\<close> says that more elements follow the sequence.
\<close>

fun textPieces :: "pkg \<Rightarrow> gostring \<Rightarrow> bool \<Rightarrow> bool \<Rightarrow> val list \<Rightarrow> gostring list" where
  "textPieces P tf firstKey after (k # v # rest) =
     textField P tf firstKey (rest \<noteq> [] \<or> after) k v # textPieces P tf False after rest"
| "textPieces P tf firstKey after rest = []"

section \<open>Conditions on the missing declarations\<close>

text \<open>
  The reserved keys are different constants (Go rejects a switch that lists one
  constant twice). A custom key is a key that is none of them.
\<close>

definition reservedKeys :: "pkg \<Rightarrow> val list" where
  "reservedKeys P = [TimestampKey P, LevelKey P, CallerKey P, PrefixKey P, MessageKey P]"

text \<open>
  Modelled from the spec: with styling disabled "all transforms degrade to identity";
  the styles themselves and the renderer are declared outside \<^verbatim>\<open>src/\<close>.
\<close>

definition stylesDisabled :: "pkg \<Rightarrow> bool" where
  "stylesDisabled P =
     (TimestampStyle P = (\<lambda>s. s) \<and> CallerStyle P = (\<lambda>s. s) \<and> PrefixStyle P = (\<lambda>s. s)
      \<and> MessageStyle P = (\<lambda>s. s) \<and> KeyStyle P = (\<lambda>s. s) \<and> ValueStyle P = (\<lambda>s. s)
      \<and> SeparatorStyle P = (\<lambda>s. s)
      \<and> (\<forall>f \<in> ran (KeyStyles P). f = (\<lambda>s. s))
      \<and> (\<forall>f \<in> ran (ValueStyles P). f = (\<lambda>s. s)))"

section \<open>A sample instance\<close>

text \<open>
  An instance of the missing declarations, to run the model on concrete inputs: string
  keys, styling disabled (every transform is the identity, no per-key style), the level
  names in capitals, no printable rune beyond Latin-1, and a logger as
  \<^verbatim>\<open>New(WithOutput(&buf), WithTimeFunction(_zeroTime), WithNoStyles())\<close> of the tests
  sets it up.
\<close>

definition samplePkg :: pkg where
  "samplePkg =
     \<lparr>TimestampKey = Str (str ''time''), LevelKey = Str (str ''level''),
      CallerKey = Str (str ''caller''), PrefixKey = Str (str ''prefix''),
      MessageKey = Str (str ''msg''),
      TimestampStyle = (\<lambda>s. s), CallerStyle = (\<lambda>s. s), PrefixStyle = (\<lambda>s. s),
      MessageStyle = (\<lambda>s. s), KeyStyle = (\<lambda>s. s), ValueStyle = (\<lambda>s. s),
      SeparatorStyle = (\<lambda>s. s), KeyStyles = Map.empty, ValueStyles = Map.empty,
      levelStyle = (\<lambda>lv. case lv of DebugLevel \<Rightarrow> str ''DEBUG'' | InfoLevel \<Rightarrow> str ''INFO''
                      | WarnLevel \<Rightarrow> str ''WARN'' | ErrorLevel \<Rightarrow> str ''ERROR''
                      | FatalLevel \<Rightarrow> str ''FATAL'' | _ \<Rightarrow> []),
      PrintRanges = (\<lambda>r. False),
      Format = (\<lambda>t layout. layout),
      Time_String = (\<lambda>t. str ''0001-01-01 00:00:00 +0000 UTC''),
      Level_String = (\<lambda>lv. []),
      jsonFormatter = (\<lambda>kvs. Inr [])\<rparr>"

text \<open>A call stack above \<^verbatim>\<open>log\<close>: \<^verbatim>\<open>main\<close> calls \<^verbatim>\<open>startOven\<close>, which calls \<^verbatim>\<open>logEvent\<close>,
  which calls \<^verbatim>\<open>Info\<close>.\<close>

definition sampleStack :: "Frame list" where
  "sampleStack =
     [methodFrame ''Info'',
      \<lparr>File = str ''/src/app/events.go'', Line = 7, Function = str ''main.logEvent''\<rparr>,
      \<lparr>File = str ''/src/app/oven.go'', Line = 21, Function = str ''main.startOven''\<rparr>,
      \<lparr>File = str ''/src/app/main.go'', Line = 12, Function = str ''main.main''\<rparr>]"

definition sampleLogger :: logger where
  "sampleLogger =
     \<lparr>w = Sink, level = InfoLevel, prefix = [], timeFunc = (\<lambda>u. UnixNano 0),
      timeFormat = str ''2006/01/02 15:04:05'', callerOffset = 0, formatter = TextFormatter,
      caller = False, noStyles = True, timestamp = False, keyvals = [], helpers = {}\<rparr>"

text \<open>The logger of the spec's scenario: derived with the bound field
  \<^verbatim>\<open>"service" = "api"\<close>.\<close>

definition sampleDerived :: logger where
  "sampleDerived = With sampleLogger [Str (str ''service''), Str (str ''api'')]"

text \<open>The call stack of \<^verbatim>\<open>TestLogHelper\<close> while its closure runs at \<open>line\<close>: the closure
  marks itself as helper at line 102 and logs at line 103; the test calls it at line
  106.\<close>

definition testLogHelperStack :: "int \<Rightarrow> Frame list" where
  "testLogHelperStack line =
     [\<lparr>File = str ''/home/dev/log/log_test.go'', Line = line, Function = str ''log.TestLogHelper.func1''\<rparr>,
      \<lparr>File = str ''/home/dev/log/log_test.go'', Line = 106, Function = str ''log.TestLogHelper''\<rparr>]"

section \<open>The formatter loop, element by element\<close>

lemma textFormatter_loop_pairs:
  "i \<le> length kvs \<Longrightarrow>
   textFormatter_loop P tf kvs i b =
     (case textPairs P tf (i = 0) (drop i kvs) of Inl e \<Rightarrow> Inl e | Inr out \<Rightarrow> Inr (b @ out))"
proof (induction P tf kvs i b rule: textFormatter_loop.induct)
  case (1 P tf kvs i b)
  show ?case
  proof (cases "i < length kvs")
    case False
    with "1.prems" show ?thesis
      by (subst textFormatter_loop.simps) simp
  next
    case lt: True
    show ?thesis
    proof (cases "i + 1 < length kvs")
      case False
      with lt have "drop i kvs = [kvs ! i]"
        by (metis Cons_nth_drop_Suc Suc_eq_plus1 drop_all linorder_not_less)
      with lt False show ?thesis
        by (subst textFormatter_loop.simps) simp
    next
      case True
      then have d: "drop i kvs = kvs ! i # kvs ! (i + 1) # drop (i + 2) kvs"
        using lt by (metis Cons_nth_drop_Suc Suc_eq_plus1 add_2_eq_Suc')
      define F where "F = textField P tf (i = 0) (int i < int (length kvs) - 2) (kvs ! i) (kvs ! (i + 1))"
      have more: "(int i < int (length kvs) - 2) = (drop (i + 2) kvs \<noteq> [])"
        by auto
      have step: "textFormatter_loop P tf kvs i b = textFormatter_loop P tf kvs (i + 2) (b @ F)"
        using lt True unfolding F_def by (subst textFormatter_loop.simps) (simp add: Let_def)
      have ih: "textFormatter_loop P tf kvs (i + 2) (b @ F) =
                (case textPairs P tf False (drop (i + 2) kvs) of
                   Inl e \<Rightarrow> Inl e
                 | Inr out \<Rightarrow> Inr ((b @ F) @ out))"
        using "1.IH"[OF refl lt refl refl True] True unfolding F_def by simp
      have rhs: "textPairs P tf (i = 0) (drop i kvs) =
                (case textPairs P tf False (drop (i + 2) kvs) of
                   Inl e \<Rightarrow> Inl e
                 | Inr out \<Rightarrow> Inr (F @ out))"
        unfolding d textPairs.simps F_def more by simp
      show ?thesis
        unfolding step ih rhs by (simp split: sum.splits)
    qed
  qed
qed

lemma textFormatter_pairs:
  "textFormatter P tf kvs =
     (case textPairs P tf True kvs of Inl e \<Rightarrow> Inl e | Inr out \<Rightarrow> Inr (out @ [0x0A]))"
  by (simp add: textFormatter_def textFormatter_loop_pairs split: sum.splits)

lemma textPairs_odd: "odd (length kvs) \<Longrightarrow> textPairs P tf first kvs = Inl IndexOutOfRange"
  by (induction P tf first kvs rule: textPairs.induct) auto




section \<open>Entry assembly and the level gate\<close>

lemma log_kvs_even:
  "even (length (fst (log_kvs P stack l lv msg kvs0))) = even (length (keyvals l) + length kvs0)"
  by (simp add: log_kvs_def Let_def split: prod.splits)

text \<open>
  Claim C1 (odd-length call key/values; the code does not do what the claim says).
  The claim: when a call's key/value list has odd length, the sentinel
  \<^verbatim>\<open>"MISSING_VALUE"\<close> is appended before the entry is formatted, so that rendering is
  total. In the code the call's list is copied into \<^verbatim>\<open>kvs\<close> first and the sentinel is
  then appended to the local \<^verbatim>\<open>keyvals\<close>, which is not read again (\<open>log_kvs\<close> returns
  it as its second component, \<open>log\<close> drops it). The formatter receives an odd-length
  sequence and reads \<^verbatim>\<open>keyvals[i+1]\<close> past the end: for every logger whose bound
  fields are paired and every accepted call with an odd number of key/values, the text
  formatter panics and nothing is written.
\<close>

theorem log_odd_keyvals_panics:
  assumes "w l \<noteq> Discard" and "Level_ord (level l) \<le> Level_ord lv"
    and "formatter l = TextFormatter" and "even (length (keyvals l))" and "odd (length kvs0)"
  shows "log P stack l lv msg kvs0 = Inl IndexOutOfRange"
proof -
  obtain kvs kvs1 where k: "log_kvs P stack l lv msg kvs0 = (kvs, kvs1)"
    by (cases "log_kvs P stack l lv msg kvs0")
  have "odd (length kvs)"
    using log_kvs_even[of P stack l lv msg kvs0] k assms(4,5) by simp
  then have "textFormatter P (timeFormat l) kvs = Inl IndexOutOfRange"
    by (simp add: textFormatter_pairs textPairs_odd)
  with assms(1-3) k show ?thesis
    by (simp add: log_def)
qed

theorem log_odd_keyvals_panics_witness:
  "w sampleLogger \<noteq> Discard \<and> Level_ord (level sampleLogger) \<le> Level_ord InfoLevel
   \<and> formatter sampleLogger = TextFormatter \<and> even (length (keyvals sampleLogger))
   \<and> odd (length [Str (str ''key1'')])
   \<and> Info samplePkg [] sampleLogger (Str (str ''info'')) [Str (str ''key1'')] = Inl IndexOutOfRange"
  using log_odd_keyvals_panics[of sampleLogger InfoLevel "[Str (str ''key1'')]" samplePkg
      "[methodFrame ''Info'']" "Str (str ''info'')"]
  by (simp add: sampleLogger_def Info_def)



section \<open>The escaping engine\<close>

lemma needsEscaping_iff: "needsEscaping pr s = (\<exists>r \<in> set s. \<not> IsPrint pr r \<or> r = 0x22)"
  by (induction s) auto

lemma IsPrint_ascii: "0x20 \<le> r \<Longrightarrow> r \<le> 0x7E \<Longrightarrow> IsPrint pr r"
  by (simp add: IsPrint_def)

text \<open>
  Claim C5 (\<^verbatim>\<open>needsEscaping\<close> and the fast path). \<^verbatim>\<open>needsEscaping\<close> is true exactly
  when the string has a rune that is not printable or is the double quote; when it is
  false, \<^verbatim>\<open>escapeStringForOutput\<close> returns the string itself for either value of
  \<^verbatim>\<open>escapeQuotes\<close>; in particular it is the identity on printable ASCII
  (U+0020..U+007E) without a double quote.
\<close>

theorem needsEscaping_and_fast_path:
  "needsEscaping pr s = (\<exists>r \<in> set s. \<not> IsPrint pr r \<or> r = 0x22)
   \<and> (\<not> needsEscaping pr s \<longrightarrow> escapeStringForOutput pr s q = s)
   \<and> ((\<forall>r \<in> set s. 0x20 \<le> r \<and> r \<le> 0x7E \<and> r \<noteq> 0x22) \<longrightarrow> escapeStringForOutput pr s q = s)"
proof (intro conjI impI)
  show "needsEscaping pr s = (\<exists>r \<in> set s. \<not> IsPrint pr r \<or> r = 0x22)"
    by (rule needsEscaping_iff)
  show "escapeStringForOutput pr s q = s" if "\<not> needsEscaping pr s"
    using that by (simp add: escapeStringForOutput_def)
  show "escapeStringForOutput pr s q = s" if "\<forall>r \<in> set s. 0x20 \<le> r \<and> r \<le> 0x7E \<and> r \<noteq> 0x22"
  proof -
    from that have "\<not> needsEscaping pr s"
      by (auto simp: needsEscaping_iff IsPrint_ascii)
    then show ?thesis
      by (simp add: escapeStringForOutput_def)
  qed
qed

theorem needsEscaping_and_fast_path_witness:
  "needsEscaping (\<lambda>r. False) (str ''a\"b'')
   \<and> needsEscaping (\<lambda>r. False) [0x61, 0x09]
   \<and> \<not> needsEscaping (\<lambda>r. False) (str ''key=val 1'')
   \<and> escapeStringForOutput (\<lambda>r. False) (str ''key=val 1'') True = str ''key=val 1''
   \<and> escapeStringForOutput (\<lambda>r. False) (str ''key=val 1'') False = str ''key=val 1''"
  using needsEscaping_and_fast_path[of "\<lambda>r. False" "str ''a\"b''" True]
    needsEscaping_and_fast_path[of "\<lambda>r. False" "[0x61, 0x09]" True]
    needsEscaping_and_fast_path[of "\<lambda>r. False" "str ''key=val 1''" True]
    needsEscaping_and_fast_path[of "\<lambda>r. False" "str ''key=val 1''" False]
  by (simp add: str_def IsPrint_def)

section \<open>The switch on the key\<close>

lemma reservedKeys_neq:
  assumes "distinct (reservedKeys P)"
  shows "LevelKey P \<noteq> TimestampKey P"
    and "CallerKey P \<noteq> TimestampKey P" and "CallerKey P \<noteq> LevelKey P"
    and "PrefixKey P \<noteq> TimestampKey P" and "PrefixKey P \<noteq> LevelKey P"
    and "PrefixKey P \<noteq> CallerKey P"
    and "MessageKey P \<noteq> TimestampKey P" and "MessageKey P \<noteq> LevelKey P"
    and "MessageKey P \<noteq> CallerKey P" and "MessageKey P \<noteq> PrefixKey P"
  using assms by (auto simp: reservedKeys_def)

lemma textField_Timestamp:
  "textField P tf f m (TimestampKey P) v =
     (case v of TimeV t \<Rightarrow> writeSpace f @ TimestampStyle P (Format P t tf) | _ \<Rightarrow> [])"
  by (simp add: textField_def)

lemma textField_Level:
  "distinct (reservedKeys P) \<Longrightarrow>
   textField P tf f m (LevelKey P) v =
     (case v of LevelV lv \<Rightarrow> writeSpace f @ levelStyle P lv | _ \<Rightarrow> [])"
  by (simp add: textField_def reservedKeys_neq)

lemma textField_Caller:
  "distinct (reservedKeys P) \<Longrightarrow>
   textField P tf f m (CallerKey P) v =
     (case v of Str c \<Rightarrow> writeSpace f @ CallerStyle P ([0x3C] @ c @ [0x3E]) | _ \<Rightarrow> [])"
  by (simp add: textField_def reservedKeys_neq)

lemma textField_Prefix:
  "distinct (reservedKeys P) \<Longrightarrow>
   textField P tf f m (PrefixKey P) v =
     (case v of Str p \<Rightarrow> writeSpace f @ PrefixStyle P (p @ [0x3A]) | _ \<Rightarrow> [])"
  by (simp add: textField_def reservedKeys_neq)

lemma textField_Message:
  "distinct (reservedKeys P) \<Longrightarrow>
   textField P tf f m (MessageKey P) v =
     (if v \<noteq> Nil then writeSpace f @ MessageStyle P (Sprint P v) else [])"
  by (simp add: textField_def reservedKeys_neq)

lemma textField_custom:
  "k \<notin> set (reservedKeys P) \<Longrightarrow> textField P tf f m k v = textPair P f m k v"
  by (auto simp: textField_def reservedKeys_def)

lemma stylesDisabled_key:
  "stylesDisabled P \<Longrightarrow>
   (case KeyStyles P k of Some keyStyle \<Rightarrow> keyStyle key | None \<Rightarrow> KeyStyle P key) = key"
  by (auto simp: stylesDisabled_def ran_def split: option.splits)

lemma stylesDisabled_value:
  "stylesDisabled P \<Longrightarrow>
   (case ValueStyles P k of Some vs \<Rightarrow> vs | None \<Rightarrow> ValueStyle P) s = s"
  by (auto simp: stylesDisabled_def ran_def split: option.splits)

section \<open>The scenario of the tests\<close>

text \<open>
  Claim C9 (scenario). A logger with styling disabled, no timestamp, no caller,
  threshold Info, the text formatter and, as \<^verbatim>\<open>New\<close> leaves them, no prefix and no
  bound fields: \<^verbatim>\<open>Info("info", "key1", "val1", "key2", "val2")\<close> writes exactly
  \<^verbatim>\<open>INFO info key1=val1 key2=val2\<close> and a newline. What \<^verbatim>\<open>src/\<close> does not contain is
  assumed as the tests show it: the level style prints \<^verbatim>\<open>INFO\<close> for the Info level, the
  reserved keys are distinct and are not the strings \<^verbatim>\<open>key1\<close> and \<^verbatim>\<open>key2\<close>.
\<close>

theorem info_scenario:
  assumes styles: "stylesDisabled P" and info: "levelStyle P InfoLevel = str ''INFO''"
    and keys: "distinct (reservedKeys P)"
    and k1: "Str (str ''key1'') \<notin> set (reservedKeys P)"
    and k2: "Str (str ''key2'') \<notin> set (reservedKeys P)"
    and l: "w l = Sink" "level l = InfoLevel" "formatter l = TextFormatter"
      "\<not> timestamp l" "\<not> caller l" "prefix l = []" "keyvals l = []"
  shows "Info P stack l (Str (str ''info''))
           [Str (str ''key1''), Str (str ''val1''), Str (str ''key2''), Str (str ''val2'')]
         = Inr (Some (str ''INFO info key1=val1 key2=val2'' @ [0x0A]))"
proof -
  have kvs: "fst (log_kvs P (methodFrame ''Info'' # stack) l InfoLevel (Str (str ''info''))
           [Str (str ''key1''), Str (str ''val1''), Str (str ''key2''), Str (str ''val2'')])
        = [LevelKey P, LevelV InfoLevel, MessageKey P, Str (str ''info''),
           Str (str ''key1''), Str (str ''val1''), Str (str ''key2''), Str (str ''val2'')]"
    using l by (simp add: log_kvs_def Sprint_def)
  have sep: "SeparatorStyle P separator = [0x3D]"
    using styles by (simp add: stylesDisabled_def separator_def)
  have f1: "textField P tf True True (LevelKey P) (LevelV InfoLevel) = str ''INFO''" for tf
    using info by (simp add: textField_Level[OF keys] writeSpace_def)
  have f2: "textField P tf False True (MessageKey P) (Str (str ''info'')) = str '' info''" for tf
    using styles by (simp add: textField_Message[OF keys] writeSpace_def stylesDisabled_def Sprint_def str_def)
  have f3: "textField P tf False True (Str (str ''key1'')) (Str (str ''val1'')) = str '' key1=val1''" for tf
    unfolding textField_custom[OF k1]
    by (simp add: textPair_def writeSpace_def sep
        stylesDisabled_key[OF styles] stylesDisabled_value[OF styles]
        Sprint_def Sprintf_plus_v_def str_def isNormal_def)
  have f4: "textField P tf False False (Str (str ''key2'')) (Str (str ''val2'')) = str '' key2=val2''" for tf
    unfolding textField_custom[OF k2]
    by (simp add: textPair_def writeSpace_def sep
        stylesDisabled_key[OF styles] stylesDisabled_value[OF styles]
        Sprint_def Sprintf_plus_v_def str_def isNormal_def)
  have "textFormatter P tf [LevelKey P, LevelV InfoLevel, MessageKey P, Str (str ''info''),
           Str (str ''key1''), Str (str ''val1''), Str (str ''key2''), Str (str ''val2'')]
        = Inr (str ''INFO info key1=val1 key2=val2'' @ [0x0A])" for tf
    by (simp add: textFormatter_pairs f1 f2 f3 f4) (simp add: str_def)
  with kvs l show ?thesis
    by (auto simp: Info_def log_def split: prod.splits)
qed

theorem info_scenario_witness:
  "stylesDisabled samplePkg \<and> levelStyle samplePkg InfoLevel = str ''INFO''
   \<and> distinct (reservedKeys samplePkg)
   \<and> Str (str ''key1'') \<notin> set (reservedKeys samplePkg)
   \<and> Str (str ''key2'') \<notin> set (reservedKeys samplePkg)
   \<and> w sampleLogger = Sink \<and> level sampleLogger = InfoLevel
   \<and> formatter sampleLogger = TextFormatter \<and> \<not> timestamp sampleLogger
   \<and> \<not> caller sampleLogger \<and> prefix sampleLogger = [] \<and> keyvals sampleLogger = []
   \<and> Info samplePkg [] sampleLogger (Str (str ''info''))
           [Str (str ''key1''), Str (str ''val1''), Str (str ''key2''), Str (str ''val2'')]
         = Inr (Some (str ''INFO info key1=val1 key2=val2'' @ [0x0A]))"
proof -
  have p: "stylesDisabled samplePkg" "levelStyle samplePkg InfoLevel = str ''INFO''"
    by (simp_all add: samplePkg_def stylesDisabled_def)
  have k: "distinct (reservedKeys samplePkg)"
    "Str (str ''key1'') \<notin> set (reservedKeys samplePkg)"
    "Str (str ''key2'') \<notin> set (reservedKeys samplePkg)"
    by (simp_all add: samplePkg_def reservedKeys_def str_def)
  have l: "w sampleLogger = Sink" "level sampleLogger = InfoLevel"
    "formatter sampleLogger = TextFormatter" "\<not> timestamp sampleLogger"
    "\<not> caller sampleLogger" "prefix sampleLogger = []" "keyvals sampleLogger = []"
    by (simp_all add: sampleLogger_def)
  show ?thesis
    using info_scenario[OF p k l, of "[]"] p k l by simp
qed


section \<open>Reserved keys with a value of another type\<close>

text \<open>
  Claim C10 (reserved key, value of another type). With distinct reserved keys: a pair
  whose key is the timestamp key and whose value is not a \<^verbatim>\<open>time.Time\<close>, the level key
  with a value that is not a \<^verbatim>\<open>Level\<close>, the caller key or the prefix key with a value
  that is not a string, makes the loop body append nothing: no special form and no
  \<^verbatim>\<open>key=value\<close>. The message case accepts a value of every type; only \<^verbatim>\<open>nil\<close> is left
  out there.
\<close>

theorem reserved_key_type_mismatch:
  assumes "distinct (reservedKeys P)"
  shows "(k = TimestampKey P \<and> (\<forall>t. v \<noteq> TimeV t) \<longrightarrow> textField P tf firstKey moreKeys k v = [])
    \<and> (k = LevelKey P \<and> (\<forall>lv. v \<noteq> LevelV lv) \<longrightarrow> textField P tf firstKey moreKeys k v = [])
    \<and> (k = CallerKey P \<and> (\<forall>c. v \<noteq> Str c) \<longrightarrow> textField P tf firstKey moreKeys k v = [])
    \<and> (k = PrefixKey P \<and> (\<forall>p. v \<noteq> Str p) \<longrightarrow> textField P tf firstKey moreKeys k v = [])
    \<and> (k = MessageKey P \<and> v = Nil \<longrightarrow> textField P tf firstKey moreKeys k v = [])"
  using assms
  by (cases v)
    (simp_all add: textField_Timestamp textField_Level textField_Caller textField_Prefix
      textField_Message)

theorem reserved_key_type_mismatch_witness:
  "distinct (reservedKeys samplePkg)
   \<and> textField samplePkg [] False True (TimestampKey samplePkg) (Str (str ''noon'')) = []
   \<and> textField samplePkg [] False True (LevelKey samplePkg) (Str (str ''info'')) = []
   \<and> textField samplePkg [] False True (CallerKey samplePkg) (Other (str ''42'') (str ''42'')) = []
   \<and> textField samplePkg [] False True (PrefixKey samplePkg) (LevelV InfoLevel) = []
   \<and> textField samplePkg [] False True (MessageKey samplePkg) Nil = []"
proof -
  have d: "distinct (reservedKeys samplePkg)"
    by (simp add: samplePkg_def reservedKeys_def str_def)
  show ?thesis
    using d
      reserved_key_type_mismatch[OF d, of "TimestampKey samplePkg" "Str (str ''noon'')" "[]" False True]
      reserved_key_type_mismatch[OF d, of "LevelKey samplePkg" "Str (str ''info'')" "[]" False True]
      reserved_key_type_mismatch[OF d, of "CallerKey samplePkg" "Other (str ''42'') (str ''42'')" "[]" False True]
      reserved_key_type_mismatch[OF d, of "PrefixKey samplePkg" "LevelV InfoLevel" "[]" False True]
      reserved_key_type_mismatch[OF d, of "MessageKey samplePkg" Nil "[]" False True]
    by simp
qed

section \<open>The caller\<close>

lemma fillLoc_loop_first:
  "\<forall>g \<in> set pre. Function g \<in> hs \<Longrightarrow> \<not> Function f \<in> hs \<Longrightarrow> fillLoc_loop hs (pre @ f # post) = f"
proof (induction pre)
  case Nil
  then show ?case by (cases post) simp_all
next
  case (Cons a pre)
  then show ?case by (cases pre) simp_all
qed

lemma fillLoc_loop_all:
  "fs \<noteq> [] \<Longrightarrow> \<forall>g \<in> set fs. Function g \<in> hs \<Longrightarrow> fillLoc_loop hs fs = last fs"
  by (induction hs fs rule: fillLoc_loop.induct) simp_all

lemma log_kvs_caller:
  assumes "caller l"
  shows "take 2 (drop ((if timestamp l then 2 else 0) + (if lv \<noteq> noLevel then 2 else 0))
            (fst (log_kvs P stack l lv msg kvs0)))
         = [CallerKey P,
            Str (case fillLoc (helpers l) (logFrame # stack) (callerOffset l + 2) of
                   (file, line, fn) \<Rightarrow> [0x3C] @ trimCallerPath file @ [0x3A] @ Itoa line @ [0x3E])]"
  using assms by (simp add: log_kvs_def Let_def split: prod.splits)

lemma fillLoc_first_within:
  assumes "drop skip stack = pre @ f # post" "length pre < 50"
    "\<forall>g \<in> set pre. Function g \<in> hs" "Function f \<notin> hs"
  shows "fillLoc hs stack skip = (File f, Line f, Function f)"
proof -
  from assms(1,2) have "take maxStackLen (drop skip stack) = pre @ f # take (maxStackLen - length pre - 1) post"
    by (simp add: maxStackLen_def take_Cons')
  with assms(3,4) show ?thesis
    by (simp add: fillLoc_def fillLoc_loop_first)
qed

lemma Helper_marks: "Helper (g # rest) l = l\<lparr>helpers := insert (Function g) (helpers l)\<rparr>"
  by (simp add: Helper_def helper_def)










text \<open>
  Claim C7 (caller resolution), as amended. \<^verbatim>\<open>fillLoc\<close> captures at most 50 frames. If
  a captured frame is not a helper, the first such frame is returned; if frames were
  captured and all are helpers, the last captured one is. \<^verbatim>\<open>Helper\<close> adds the function
  that calls it to the helper set of the logger and changes nothing else; marking a
  function twice gives the same logger as marking it once. \<^verbatim>\<open>log\<close> resolves the caller
  with the helper set of the logger, starting \<^verbatim>\<open>callerOffset\<close> frames above the caller of
  the exported method. Hence, when helper-marked wrappers call the logger, the caller
  value of the entry holds the file and line of the first caller that is not a helper,
  as long as fewer than 50 helper frames are above it; when every captured frame is a
  helper, it holds the last captured frame. The last part is the shape of
  \<^verbatim>\<open>TestLogHelper\<close>: a function marks itself and then logs, and the entry reports the
  place where that function was called.
\<close>

theorem helper_frames_skipped:
  "length (take maxStackLen (drop skip stack)) \<le> 50
   \<and> (take maxStackLen (drop skip stack) = pre @ f # post
        \<and> (\<forall>g \<in> set pre. Function g \<in> hs) \<and> Function f \<notin> hs \<longrightarrow>
      fillLoc hs stack skip = (File f, Line f, Function f))
   \<and> (take maxStackLen (drop skip stack) \<noteq> []
        \<and> (\<forall>g \<in> set (take maxStackLen (drop skip stack)). Function g \<in> hs) \<longrightarrow>
      fillLoc hs stack skip =
        (File (last (take maxStackLen (drop skip stack))),
         Line (last (take maxStackLen (drop skip stack))),
         Function (last (take maxStackLen (drop skip stack)))))
   \<and> (drop skip stack = pre @ f # post \<and> length pre < 50
        \<and> (\<forall>g \<in> set pre. Function g \<in> hs) \<and> Function f \<notin> hs \<longrightarrow>
      fillLoc hs stack skip = (File f, Line f, Function f))
   \<and> Helper (h # up) l = l\<lparr>helpers := insert (Function h) (helpers l)\<rparr>
   \<and> Helper (h # up) (Helper (h # up) l) = Helper (h # up) l
   \<and> helper stack' (helper stack' l n) n = helper stack' l n
   \<and> (caller l \<and> drop (callerOffset l) callers = pre @ f # post \<and> length pre < 50
        \<and> (\<forall>g \<in> set pre. Function g \<in> helpers l) \<and> Function f \<notin> helpers l \<longrightarrow>
      take 2 (drop ((if timestamp l then 2 else 0) + (if lv \<noteq> noLevel then 2 else 0))
                (fst (log_kvs P (m # callers) l lv msg kvs0)))
        = [CallerKey P, Str ([0x3C] @ trimCallerPath (File f) @ [0x3A] @ Itoa (Line f) @ [0x3E])])
   \<and> (caller l \<and> take maxStackLen (drop (callerOffset l) callers) \<noteq> []
        \<and> (\<forall>g \<in> set (take maxStackLen (drop (callerOffset l) callers)). Function g \<in> helpers l) \<longrightarrow>
      take 2 (drop ((if timestamp l then 2 else 0) + (if lv \<noteq> noLevel then 2 else 0))
                (fst (log_kvs P (m # callers) l lv msg kvs0)))
        = [CallerKey P,
           Str ([0x3C] @ trimCallerPath (File (last (take maxStackLen (drop (callerOffset l) callers))))
                @ [0x3A] @ Itoa (Line (last (take maxStackLen (drop (callerOffset l) callers)))) @ [0x3E])])
   \<and> (caller l \<and> callerOffset l = 0 \<and> Function h' = Function h
        \<and> Function f \<noteq> Function h \<and> Function f \<notin> helpers l \<longrightarrow>
      take 2 (drop ((if timestamp l then 2 else 0) + (if lv \<noteq> noLevel then 2 else 0))
                (fst (log_kvs P (m # h' # f # post) (Helper (h # up) l) lv msg kvs0)))
        = [CallerKey P, Str ([0x3C] @ trimCallerPath (File f) @ [0x3A] @ Itoa (Line f) @ [0x3E])])"
proof (intro conjI impI)
  show "length (take maxStackLen (drop skip stack)) \<le> 50"
    by (simp add: maxStackLen_def)
  show "fillLoc hs stack skip = (File f, Line f, Function f)"
    if "take maxStackLen (drop skip stack) = pre @ f # post
        \<and> (\<forall>g \<in> set pre. Function g \<in> hs) \<and> Function f \<notin> hs"
    using that by (simp add: fillLoc_def fillLoc_loop_first)
  show "fillLoc hs stack skip =
        (File (last (take maxStackLen (drop skip stack))),
         Line (last (take maxStackLen (drop skip stack))),
         Function (last (take maxStackLen (drop skip stack))))"
    if "take maxStackLen (drop skip stack) \<noteq> []
        \<and> (\<forall>g \<in> set (take maxStackLen (drop skip stack)). Function g \<in> hs)"
    using that by (simp add: fillLoc_def fillLoc_loop_all Let_def)
  show "fillLoc hs stack skip = (File f, Line f, Function f)"
    if "drop skip stack = pre @ f # post \<and> length pre < 50
        \<and> (\<forall>g \<in> set pre. Function g \<in> hs) \<and> Function f \<notin> hs"
    using that fillLoc_first_within by blast
  show mark: "Helper (h # up) l = l\<lparr>helpers := insert (Function h) (helpers l)\<rparr>"
    by (rule Helper_marks)
  show "Helper (h # up) (Helper (h # up) l) = Helper (h # up) l"
    by (simp add: Helper_marks)
  show "helper stack' (helper stack' l n) n = helper stack' l n"
    by (simp add: helper_def Let_def)
  show "take 2 (drop ((if timestamp l then 2 else 0) + (if lv \<noteq> noLevel then 2 else 0))
                (fst (log_kvs P (m # callers) l lv msg kvs0)))
        = [CallerKey P, Str ([0x3C] @ trimCallerPath (File f) @ [0x3A] @ Itoa (Line f) @ [0x3E])]"
    if a: "caller l \<and> drop (callerOffset l) callers = pre @ f # post \<and> length pre < 50
        \<and> (\<forall>g \<in> set pre. Function g \<in> helpers l) \<and> Function f \<notin> helpers l"
  proof -
    from a have "drop (callerOffset l + 2) (logFrame # m # callers) = pre @ f # post"
      by simp
    with a have "fillLoc (helpers l) (logFrame # m # callers) (callerOffset l + 2)
        = (File f, Line f, Function f)"
      using fillLoc_first_within by blast
    with a show ?thesis
      by (simp only: log_kvs_caller prod.case)
  qed
  show "take 2 (drop ((if timestamp l then 2 else 0) + (if lv \<noteq> noLevel then 2 else 0))
                (fst (log_kvs P (m # callers) l lv msg kvs0)))
        = [CallerKey P,
           Str ([0x3C] @ trimCallerPath (File (last (take maxStackLen (drop (callerOffset l) callers))))
                @ [0x3A] @ Itoa (Line (last (take maxStackLen (drop (callerOffset l) callers)))) @ [0x3E])]"
    if a: "caller l \<and> take maxStackLen (drop (callerOffset l) callers) \<noteq> []
        \<and> (\<forall>g \<in> set (take maxStackLen (drop (callerOffset l) callers)). Function g \<in> helpers l)"
  proof -
    have d: "drop (callerOffset l + 2) (logFrame # m # callers) = drop (callerOffset l) callers"
      by simp
    from a have "fillLoc (helpers l) (logFrame # m # callers) (callerOffset l + 2)
        = (File (last (take maxStackLen (drop (callerOffset l) callers))),
           Line (last (take maxStackLen (drop (callerOffset l) callers))),
           Function (last (take maxStackLen (drop (callerOffset l) callers))))"
      unfolding fillLoc_def d Let_def by (simp add: fillLoc_loop_all)
    with a show ?thesis
      by (simp only: log_kvs_caller prod.case)
  qed
  show "take 2 (drop ((if timestamp l then 2 else 0) + (if lv \<noteq> noLevel then 2 else 0))
                (fst (log_kvs P (m # h' # f # post) (Helper (h # up) l) lv msg kvs0)))
        = [CallerKey P, Str ([0x3C] @ trimCallerPath (File f) @ [0x3A] @ Itoa (Line f) @ [0x3E])]"
    if a: "caller l \<and> callerOffset l = 0 \<and> Function h' = Function h
        \<and> Function f \<noteq> Function h \<and> Function f \<notin> helpers l"
  proof -
    let ?l = "Helper (h # up) l"
    have sel: "caller ?l = caller l" "callerOffset ?l = callerOffset l" "timestamp ?l = timestamp l"
      "helpers ?l = insert (Function h) (helpers l)"
      by (simp_all add: Helper_marks)
    from a have "drop (callerOffset ?l + 2) (logFrame # m # h' # f # post) = [h'] @ f # post"
      by (simp add: sel)
    moreover from a have "\<forall>g \<in> set [h']. Function g \<in> helpers ?l" "Function f \<notin> helpers ?l"
      by (simp_all add: sel)
    ultimately have "fillLoc (helpers ?l) (logFrame # m # h' # f # post) (callerOffset ?l + 2)
        = (File f, Line f, Function f)"
      using fillLoc_first_within[of "callerOffset ?l + 2" "logFrame # m # h' # f # post" "[h']" f post "helpers ?l"]
      by simp
    moreover from a have "caller ?l"
      by (simp add: sel)
    ultimately show ?thesis
      using log_kvs_caller[of ?l lv P "m # h' # f # post" msg kvs0]
      by (simp only: sel prod.case)
  qed
qed

theorem helper_frames_skipped_witness:
  "fillLoc {str ''main.logEvent'', str ''main.startOven''} (logFrame # sampleStack) 2
       = (str ''/src/app/main.go'', 12, str ''main.main'')
   \<and> fillLoc {str ''main.logEvent'', str ''main.startOven'', str ''main.main''} (logFrame # sampleStack) 2
       = (str ''/src/app/main.go'', 12, str ''main.main'')
   \<and> helpers (Helper (testLogHelperStack 102) (sampleLogger\<lparr>caller := True\<rparr>))
       = {str ''log.TestLogHelper.func1''}
   \<and> take 2 (drop 2 (fst (log_kvs samplePkg (methodFrame ''Info'' # testLogHelperStack 103)
         (Helper (testLogHelperStack 102) (sampleLogger\<lparr>caller := True\<rparr>))
         InfoLevel (Str (str ''helper func'')) [])))
       = [Str (str ''caller''), Str (str ''<log/log_test.go:106>'')]
   \<and> take 2 (drop 2 (fst (log_kvs samplePkg sampleStack
         (sampleLogger\<lparr>caller := True, helpers := {str ''main.logEvent'', str ''main.startOven''}\<rparr>)
         InfoLevel (Str (str ''oven on'')) [])))
       = [Str (str ''caller''), Str (str ''<app/main.go:12>'')]
   \<and> take 2 (drop 2 (fst (log_kvs samplePkg sampleStack
         (sampleLogger\<lparr>caller := True,
            helpers := {str ''main.logEvent'', str ''main.startOven'', str ''main.main''}\<rparr>)
         InfoLevel (Str (str ''oven on'')) [])))
       = [Str (str ''caller''), Str (str ''<app/main.go:12>'')]"
proof -
  let ?e = "\<lparr>File = str ''/src/app/events.go'', Line = 7, Function = str ''main.logEvent''\<rparr>"
  let ?o = "\<lparr>File = str ''/src/app/oven.go'', Line = 21, Function = str ''main.startOven''\<rparr>"
  let ?m = "\<lparr>File = str ''/src/app/main.go'', Line = 12, Function = str ''main.main''\<rparr>"
  let ?c = "\<lparr>File = str ''/home/dev/log/log_test.go'', Line = 102, Function = str ''log.TestLogHelper.func1''\<rparr>"
  let ?c' = "\<lparr>File = str ''/home/dev/log/log_test.go'', Line = 103, Function = str ''log.TestLogHelper.func1''\<rparr>"
  let ?t = "\<lparr>File = str ''/home/dev/log/log_test.go'', Line = 106, Function = str ''log.TestLogHelper''\<rparr>"
  let ?stk = "logFrame # sampleStack"
  let ?h2 = "{str ''main.logEvent'', str ''main.startOven''}"
  let ?h3 = "{str ''main.logEvent'', str ''main.startOven'', str ''main.main''}"
  let ?l = "sampleLogger\<lparr>caller := True\<rparr>"
  let ?l2 = "sampleLogger\<lparr>caller := True, helpers := ?h2\<rparr>"
  let ?l3 = "sampleLogger\<lparr>caller := True, helpers := ?h3\<rparr>"
  have s102: "testLogHelperStack 102 = ?c # [?t]" and s103: "testLogHelperStack 103 = ?c' # ?t # []"
    and ss: "sampleStack = methodFrame ''Info'' # [?e, ?o, ?m]"
    by (simp_all add: testLogHelperStack_def sampleStack_def)
  have c: "take maxStackLen (drop 2 ?stk) = [?e, ?o] @ ?m # []"
    and ne: "take maxStackLen (drop 2 ?stk) \<noteq> []"
    and la: "last (take maxStackLen (drop 2 ?stk)) = ?m"
    by (simp_all add: sampleStack_def maxStackLen_def)
  have h2: "\<forall>g \<in> set [?e, ?o]. Function g \<in> ?h2" "Function ?m \<notin> ?h2"
    by (simp_all add: str_def)
  have h3: "\<forall>g \<in> set (take maxStackLen (drop 2 ?stk)). Function g \<in> ?h3"
    unfolding c by simp
  have r1: "fillLoc ?h2 ?stk 2 = (File ?m, Line ?m, Function ?m)"
    using helper_frames_skipped[where skip = 2 and stack = ?stk and pre = "[?e, ?o]" and f = ?m
        and post = "[]" and hs = ?h2] c h2
    by blast
  have r2: "fillLoc ?h3 ?stk 2 =
      (File (last (take maxStackLen (drop 2 ?stk))), Line (last (take maxStackLen (drop 2 ?stk))),
       Function (last (take maxStackLen (drop 2 ?stk))))"
    using helper_frames_skipped[where skip = 2 and stack = ?stk and hs = ?h3] ne h3
    by blast
  have r3: "Helper (?c # [?t]) ?l = ?l\<lparr>helpers := insert (Function ?c) (helpers ?l)\<rparr>"
    using helper_frames_skipped[where h = ?c and up = "[?t]" and l = ?l]
    by blast
  have n: "(if timestamp ?l then 2 else 0) + (if InfoLevel \<noteq> noLevel then 2 else 0) = (2::nat)"
    "(if timestamp ?l2 then 2 else 0) + (if InfoLevel \<noteq> noLevel then 2 else 0) = (2::nat)"
    "(if timestamp ?l3 then 2 else 0) + (if InfoLevel \<noteq> noLevel then 2 else 0) = (2::nat)"
    by (simp_all add: sampleLogger_def)
  have p4: "caller ?l \<and> callerOffset ?l = 0 \<and> Function ?c' = Function ?c
      \<and> Function ?t \<noteq> Function ?c \<and> Function ?t \<notin> helpers ?l"
    by (simp add: sampleLogger_def str_def)
  have r4: "take 2 (drop ((if timestamp ?l then 2 else 0) + (if InfoLevel \<noteq> noLevel then 2 else 0))
        (fst (log_kvs samplePkg (methodFrame ''Info'' # ?c' # ?t # []) (Helper (?c # [?t]) ?l)
               InfoLevel (Str (str ''helper func'')) [])))
      = [CallerKey samplePkg, Str ([0x3C] @ trimCallerPath (File ?t) @ [0x3A] @ Itoa (Line ?t) @ [0x3E])]"
    using helper_frames_skipped[where l = ?l and h = ?c and h' = ?c' and f = ?t and post = "[]"
        and up = "[?t]" and lv = InfoLevel and P = samplePkg and m = "methodFrame ''Info''"
        and msg = "Str (str ''helper func'')" and ?kvs0.0 = "[]"] p4
    by blast
  have p5: "caller ?l2 \<and> drop (callerOffset ?l2) [?e, ?o, ?m] = [?e, ?o] @ ?m # [] \<and> length [?e, ?o] < 50
      \<and> (\<forall>g \<in> set [?e, ?o]. Function g \<in> helpers ?l2) \<and> Function ?m \<notin> helpers ?l2"
    by (simp add: sampleLogger_def str_def)
  have r5: "take 2 (drop ((if timestamp ?l2 then 2 else 0) + (if InfoLevel \<noteq> noLevel then 2 else 0))
        (fst (log_kvs samplePkg (methodFrame ''Info'' # [?e, ?o, ?m]) ?l2 InfoLevel (Str (str ''oven on'')) [])))
      = [CallerKey samplePkg, Str ([0x3C] @ trimCallerPath (File ?m) @ [0x3A] @ Itoa (Line ?m) @ [0x3E])]"
    using helper_frames_skipped[where l = ?l2 and callers = "[?e, ?o, ?m]" and pre = "[?e, ?o]" and f = ?m
        and post = "[]" and lv = InfoLevel and P = samplePkg and m = "methodFrame ''Info''"
        and msg = "Str (str ''oven on'')" and ?kvs0.0 = "[]"] p5
    by blast
  have t6: "take maxStackLen (drop (callerOffset ?l3) [?e, ?o, ?m]) = [?e, ?o, ?m]"
    by (simp add: sampleLogger_def maxStackLen_def)
  have la6: "last [?e, ?o, ?m] = ?m"
    by simp
  have p6: "caller ?l3 \<and> take maxStackLen (drop (callerOffset ?l3) [?e, ?o, ?m]) \<noteq> []
      \<and> (\<forall>g \<in> set (take maxStackLen (drop (callerOffset ?l3) [?e, ?o, ?m])). Function g \<in> helpers ?l3)"
    unfolding t6 by (simp add: sampleLogger_def)
  have r6: "take 2 (drop ((if timestamp ?l3 then 2 else 0) + (if InfoLevel \<noteq> noLevel then 2 else 0))
        (fst (log_kvs samplePkg (methodFrame ''Info'' # [?e, ?o, ?m]) ?l3 InfoLevel (Str (str ''oven on'')) [])))
      = [CallerKey samplePkg,
         Str ([0x3C] @ trimCallerPath (File (last (take maxStackLen (drop (callerOffset ?l3) [?e, ?o, ?m]))))
              @ [0x3A] @ Itoa (Line (last (take maxStackLen (drop (callerOffset ?l3) [?e, ?o, ?m])))) @ [0x3E])]"
    using helper_frames_skipped[where l = ?l3 and callers = "[?e, ?o, ?m]"
        and lv = InfoLevel and P = samplePkg and m = "methodFrame ''Info''"
        and msg = "Str (str ''oven on'')" and ?kvs0.0 = "[]"] p6
    by blast
  have v4: "[CallerKey samplePkg, Str ([0x3C] @ trimCallerPath (File ?t) @ [0x3A] @ Itoa (Line ?t) @ [0x3E])]
      = [Str (str ''caller''), Str (str ''<log/log_test.go:106>'')]"
    by code_simp
  have v5: "[CallerKey samplePkg, Str ([0x3C] @ trimCallerPath (File ?m) @ [0x3A] @ Itoa (Line ?m) @ [0x3E])]
      = [Str (str ''caller''), Str (str ''<app/main.go:12>'')]"
    by code_simp
  have hs: "helpers (?l\<lparr>helpers := insert (Function ?c) (helpers ?l)\<rparr>) = {str ''log.TestLogHelper.func1''}"
    by (simp add: sampleLogger_def)
  have c1: "fillLoc ?h2 ?stk 2 = (str ''/src/app/main.go'', 12, str ''main.main'')"
    using r1 by simp
  have c2: "fillLoc ?h3 ?stk 2 = (str ''/src/app/main.go'', 12, str ''main.main'')"
    using r2 unfolding la by simp
  have c3: "helpers (Helper (testLogHelperStack 102) ?l) = {str ''log.TestLogHelper.func1''}"
    unfolding s102 r3 hs ..
  have c4: "take 2 (drop 2 (fst (log_kvs samplePkg (methodFrame ''Info'' # testLogHelperStack 103)
         (Helper (testLogHelperStack 102) ?l) InfoLevel (Str (str ''helper func'')) [])))
       = [Str (str ''caller''), Str (str ''<log/log_test.go:106>'')]"
    using r4 unfolding n v4 s102 s103 .
  have c5: "take 2 (drop 2 (fst (log_kvs samplePkg sampleStack ?l2 InfoLevel (Str (str ''oven on'')) [])))
       = [Str (str ''caller''), Str (str ''<app/main.go:12>'')]"
    using r5 unfolding n v5 ss .
  have c6: "take 2 (drop 2 (fst (log_kvs samplePkg sampleStack ?l3 InfoLevel (Str (str ''oven on'')) [])))
       = [Str (str ''caller''), Str (str ''<app/main.go:12>'')]"
    using r6 unfolding n t6 la6 v5 ss .
  from c1 c2 c3 c4 c5 c6 show ?thesis
    by blast
qed

text \<open>
  Claim C7 as stated says "regardless of how many helper layers are stacked". With 50
  frames of a helper-marked function (a recursive helper, say) between \<^verbatim>\<open>Info\<close> and
  \<^verbatim>\<open>main\<close>, the capture holds helper frames only and the entry reports the helper's own
  line 7, not line 12 of \<^verbatim>\<open>main\<close>; with 49 such frames it reports \<^verbatim>\<open>main\<close>.
\<close>

theorem fifty_helper_layers:
  "take 2 (drop 2 (fst (log_kvs samplePkg
       (methodFrame ''Info''
        # replicate 50 \<lparr>File = str ''/src/app/events.go'', Line = 7, Function = str ''main.logEvent''\<rparr>
        @ [\<lparr>File = str ''/src/app/main.go'', Line = 12, Function = str ''main.main''\<rparr>])
       (Helper [\<lparr>File = str ''/src/app/events.go'', Line = 6, Function = str ''main.logEvent''\<rparr>,
                \<lparr>File = str ''/src/app/main.go'', Line = 12, Function = str ''main.main''\<rparr>]
          (sampleLogger\<lparr>caller := True\<rparr>))
       InfoLevel (Str (str ''oven on'')) [])))
     = [Str (str ''caller''), Str (str ''<app/events.go:7>'')]
   \<and> take 2 (drop 2 (fst (log_kvs samplePkg
       (methodFrame ''Info''
        # replicate 49 \<lparr>File = str ''/src/app/events.go'', Line = 7, Function = str ''main.logEvent''\<rparr>
        @ [\<lparr>File = str ''/src/app/main.go'', Line = 12, Function = str ''main.main''\<rparr>])
       (Helper [\<lparr>File = str ''/src/app/events.go'', Line = 6, Function = str ''main.logEvent''\<rparr>,
                \<lparr>File = str ''/src/app/main.go'', Line = 12, Function = str ''main.main''\<rparr>]
          (sampleLogger\<lparr>caller := True\<rparr>))
       InfoLevel (Str (str ''oven on'')) [])))
     = [Str (str ''caller''), Str (str ''<app/main.go:12>'')]
   \<and> str ''<app/events.go:7>'' \<noteq> str ''<app/main.go:12>''"
  by code_simp




section \<open>Escaping and un-escaping\<close>

lemma lowerhex_eq:
  "lowerhex = [0x30, 0x31, 0x32, 0x33, 0x34, 0x35, 0x36, 0x37, 0x38, 0x39,
               0x61, 0x62, 0x63, 0x64, 0x65, 0x66]"
  by (simp add: lowerhex_def str_def)

lemma lowerhex_nth:
  assumes "0 \<le> d" and "d < 16"
  shows "unhex (lowerhex ! nat d) = Some d \<and> 0x30 \<le> lowerhex ! nat d \<and> lowerhex ! nat d \<le> 0x66"
proof -
  from assms have "d = 0 \<or> d = 1 \<or> d = 2 \<or> d = 3 \<or> d = 4 \<or> d = 5 \<or> d = 6 \<or> d = 7 \<or> d = 8
      \<or> d = 9 \<or> d = 10 \<or> d = 11 \<or> d = 12 \<or> d = 13 \<or> d = 14 \<or> d = 15"
    by presburger
  then show ?thesis
    by (elim disjE) (simp_all add: lowerhex_eq unhex_def)
qed

lemma unhex_lowerhex_mod: "unhex (lowerhex ! nat (x mod 16)) = Some (x mod 16)"
  by (rule lowerhex_nth[THEN conjunct1]) simp_all

lemma unhexAll_hexDigits:
  "unhexAll v (hexDigits r shifts) = Some (foldl (\<lambda>a s. 16 * a + (r div 2 ^ s) mod 16) v shifts)"
  by (induction shifts arbitrary: v) (simp_all add: hexDigits_def unhex_lowerhex_mod)

lemma horner4:
  "(m16::int) = 4096 * d3 + m12 \<Longrightarrow> m12 = 256 * d2 + m8 \<Longrightarrow> m8 = 16 * d1 + d0 \<Longrightarrow>
   16 * (16 * (16 * (16 * 0 + d3) + d2) + d1) + d0 = m16"
  by simp

lemma hex4:
  assumes "0 \<le> r" and "r < 0x10000"
  shows "foldl (\<lambda>a s. 16 * a + (r div 2 ^ s) mod 16) 0 [12, 8, 4, 0] = (r::int)"
proof -
  have a: "r mod 65536 = 4096 * (r div 4096 mod 16) + r mod 4096"
    using zmod_zmult2_eq[of 16 r 4096] by simp
  have b: "r mod 4096 = 256 * (r div 256 mod 16) + r mod 256"
    using zmod_zmult2_eq[of 16 r 256] by simp
  have c: "r mod 256 = 16 * (r div 16 mod 16) + r mod 16"
    using zmod_zmult2_eq[of 16 r 16] by simp
  have m: "r mod 65536 = r"
    using assms by (rule_tac mod_pos_pos_trivial) simp_all
  have "foldl (\<lambda>a s. 16 * a + (r div 2 ^ s) mod 16) 0 [12, 8, 4, 0]
      = 16 * (16 * (16 * (16 * 0 + r div 4096 mod 16) + r div 256 mod 16) + r div 16 mod 16) + r mod 16"
    by (simp only: foldl.simps power_numeral Num.pow.simps Num.sqr.simps num.simps power_0 div_by_1
        numeral_times_numeral mult.commute mult_1 mult_numeral_1_right Num.mult_num_simps)
  also have "\<dots> = r mod 65536"
    by (rule horner4[OF a b c])
  finally show ?thesis
    using m by (simp only:)
qed


lemma horner8:
  "(m32::int) = 268435456 * d7 + m28 \<Longrightarrow> m28 = 16777216 * d6 + m24 \<Longrightarrow>
   m24 = 1048576 * d5 + m20 \<Longrightarrow> m20 = 65536 * d4 + m16 \<Longrightarrow>
   m16 = 4096 * d3 + m12 \<Longrightarrow> m12 = 256 * d2 + m8 \<Longrightarrow> m8 = 16 * d1 + d0 \<Longrightarrow>
   16 * (16 * (16 * (16 * (16 * (16 * (16 * (16 * 0 + d7) + d6) + d5) + d4) + d3) + d2) + d1) + d0
     = m32"
  by simp

lemma hex8:
  assumes "0 \<le> r" and "r < 0x100000000"
  shows "foldl (\<lambda>a s. 16 * a + (r div 2 ^ s) mod 16) 0 [28, 24, 20, 16, 12, 8, 4, 0] = (r::int)"
proof -
  have a: "r mod 4294967296 = 268435456 * (r div 268435456 mod 16) + r mod 268435456"
    using zmod_zmult2_eq[of 16 r 268435456] by simp
  have b: "r mod 268435456 = 16777216 * (r div 16777216 mod 16) + r mod 16777216"
    using zmod_zmult2_eq[of 16 r 16777216] by simp
  have c: "r mod 16777216 = 1048576 * (r div 1048576 mod 16) + r mod 1048576"
    using zmod_zmult2_eq[of 16 r 1048576] by simp
  have d: "r mod 1048576 = 65536 * (r div 65536 mod 16) + r mod 65536"
    using zmod_zmult2_eq[of 16 r 65536] by simp
  have e: "r mod 65536 = 4096 * (r div 4096 mod 16) + r mod 4096"
    using zmod_zmult2_eq[of 16 r 4096] by simp
  have f: "r mod 4096 = 256 * (r div 256 mod 16) + r mod 256"
    using zmod_zmult2_eq[of 16 r 256] by simp
  have g: "r mod 256 = 16 * (r div 16 mod 16) + r mod 16"
    using zmod_zmult2_eq[of 16 r 16] by simp
  have m: "r mod 4294967296 = r"
    using assms by (rule_tac mod_pos_pos_trivial) simp_all
  have "foldl (\<lambda>a s. 16 * a + (r div 2 ^ s) mod 16) 0 [28, 24, 20, 16, 12, 8, 4, 0]
      = 16 * (16 * (16 * (16 * (16 * (16 * (16 * (16 * 0 + r div 268435456 mod 16)
          + r div 16777216 mod 16) + r div 1048576 mod 16) + r div 65536 mod 16)
          + r div 4096 mod 16) + r div 256 mod 16) + r div 16 mod 16) + r mod 16"
    by (simp only: foldl.simps power_numeral Num.pow.simps Num.sqr.simps num.simps power_0 div_by_1
        numeral_times_numeral mult.commute mult_1 mult_numeral_1_right Num.mult_num_simps)
  also have "\<dots> = r mod 4294967296"
    by (rule horner8[OF a b c d e f g])
  finally show ?thesis
    using m by (simp only:)
qed

lemma hex2:
  assumes "0 \<le> r" and "r < 0x20"
  shows "unhexAll 0 [lowerhex ! nat ((r mod 256) div 16), lowerhex ! nat ((r mod 256) mod 16)] = Some r"
proof -
  have m: "r mod 256 = r"
    using assms by (rule_tac mod_pos_pos_trivial) simp_all
  have d: "r div 16 = r div 16 mod 16"
    using assms by (intro mod_pos_pos_trivial[symmetric]) simp_all
  have c: "r = 16 * (r div 16) + r mod 16"
    by simp
  have "unhexAll 0 [lowerhex ! nat (r div 16 mod 16), lowerhex ! nat (r mod 16)]
      = Some (16 * (16 * 0 + r div 16 mod 16) + r mod 16)"
    by (simp only: unhexAll.simps unhex_lowerhex_mod option.case)
  then show ?thesis
    unfolding m using d c by simp
qed


lemma IsPrint_not_special: "IsPrint pr r \<Longrightarrow> r \<noteq> 0x0A \<and> \<not> IsControl r"
  by (auto simp: IsPrint_def IsControl_def split: if_splits)

lemma escape_eq_concat:
  "escapeStringForOutput pr s q = concat (map (escapeRune pr q) s)"
proof -
  have "\<not> needsEscaping pr s \<Longrightarrow> concat (map (escapeRune pr q) s) = s"
    by (induction s) (auto simp: escapeRune_def split: if_splits)
  then show ?thesis
    by (auto simp: escapeStringForOutput_def)
qed

lemma hexDigits_printable:
  "x \<in> set (hexDigits r shifts) \<Longrightarrow> 0x30 \<le> x \<and> x \<le> 0x66"
  using lowerhex_nth[THEN conjunct2]
  by (auto simp: hexDigits_def)

lemma escapeRune_shape:
  "(escapeRune pr q r = [r] \<and> IsPrint pr r)
   \<or> (\<exists>c ds. escapeRune pr q r = 0x5C # c # ds \<and> 0x20 \<le> c \<and> c \<le> 0x7E
          \<and> (\<forall>d \<in> set ds. 0x30 \<le> d \<and> d \<le> 0x66))"
proof -
  define h1 where "h1 = lowerhex ! nat ((r mod 256) div 16)"
  define h0 where "h0 = lowerhex ! nat ((r mod 256) mod 16)"
  define uF where "uF = hexDigits 0xFFFD [12, 8, 4, 0]"
  define u4 where "u4 = hexDigits r [12, 8, 4, 0]"
  define u8 where "u8 = hexDigits r [28, 24, 20, 16, 12, 8, 4, 0]"
  have "0 \<le> r mod 256 \<and> r mod 256 < 256"
    by simp
  then have "0 \<le> (r mod 256) div 16 \<and> (r mod 256) div 16 < 16"
    by presburger
  then have h1: "0x30 \<le> h1 \<and> h1 \<le> 0x66"
    unfolding h1_def by (intro lowerhex_nth[THEN conjunct2]) simp_all
  have h0: "0x30 \<le> h0 \<and> h0 \<le> 0x66"
    unfolding h0_def by (intro lowerhex_nth[THEN conjunct2]) simp_all
  have us: "\<forall>d \<in> set uF. 0x30 \<le> d \<and> d \<le> 0x66" "\<forall>d \<in> set u4. 0x30 \<le> d \<and> d \<le> 0x66"
    "\<forall>d \<in> set u8. 0x30 \<le> d \<and> d \<le> 0x66"
    unfolding uF_def u4_def u8_def using hexDigits_printable by blast+
  have e: "escapeRune pr q r =
     (if q \<and> r = 0x22 then [0x5C, 0x22]
      else if IsPrint pr r then [r]
      else if r = 0x07 then [0x5C, 0x61]
      else if r = 0x08 then [0x5C, 0x62]
      else if r = 0x0C then [0x5C, 0x66]
      else if r = 0x0A then [0x5C, 0x6E]
      else if r = 0x0D then [0x5C, 0x72]
      else if r = 0x09 then [0x5C, 0x74]
      else if r = 0x0B then [0x5C, 0x76]
      else if r < 0x20 then [0x5C, 0x78, h1, h0]
      else if \<not> ValidRune r then [0x5C, 0x75] @ uF
      else if r < 0x10000 then [0x5C, 0x75] @ u4
      else [0x5C, 0x55] @ u8)"
    by (simp only: escapeRune_def h1_def h0_def uF_def u4_def u8_def)
  show ?thesis
    unfolding e using h1 h0 us by simp
qed

lemma escapeRune_printable:
  assumes "x \<in> set (escapeRune pr q r)"
  shows "IsPrint pr x"
proof -
  from escapeRune_shape[of pr q r] assms
  have "IsPrint pr x \<or> (0x20 \<le> x \<and> x \<le> 0x7E)"
    by fastforce
  then show ?thesis
    by (auto simp: IsPrint_def)
qed

lemma length_hexDigits: "length (hexDigits r shifts) = length shifts"
  by (simp add: hexDigits_def)

lemma unescape_x:
  "length ds = 2 \<Longrightarrow> unhexAll 0 ds = Some v \<Longrightarrow>
   unescape quote (0x5C # 0x78 # ds @ t) = map_option ((#) v) (unescape quote t)"
  by auto

lemma unescape_u:
  "length ds = 4 \<Longrightarrow> unhexAll 0 ds = Some v \<Longrightarrow> ValidRune v \<Longrightarrow>
   unescape quote (0x5C # 0x75 # ds @ t) = map_option ((#) v) (unescape quote t)"
  by auto

lemma unescape_U:
  "length ds = 8 \<Longrightarrow> unhexAll 0 ds = Some v \<Longrightarrow> ValidRune v \<Longrightarrow>
   unescape quote (0x5C # 0x55 # ds @ t) = map_option ((#) v) (unescape quote t)"
  by auto

lemma unescape_escapeRune:
  assumes v: "ValidRune r" and b: "r \<noteq> 0x5C"
  shows "unescape (quoteMode q) (escapeRune pr q r @ t) = map_option ((#) r) (unescape (quoteMode q) t)"
proof -
  from v have r0: "0 \<le> r" and rmax: "r < 0x100000000"
    by (auto simp: ValidRune_def)
  consider (quote) "q" "r = 0x22"
    | (print) "\<not> (q \<and> r = 0x22)" "IsPrint pr r"
    | (letter) "\<not> (q \<and> r = 0x22)" "\<not> IsPrint pr r"
        "r = 0x07 \<or> r = 0x08 \<or> r = 0x0C \<or> r = 0x0A \<or> r = 0x0D \<or> r = 0x09 \<or> r = 0x0B"
    | (x) "\<not> (q \<and> r = 0x22)" "\<not> IsPrint pr r"
        "\<not> (r = 0x07 \<or> r = 0x08 \<or> r = 0x0C \<or> r = 0x0A \<or> r = 0x0D \<or> r = 0x09 \<or> r = 0x0B)"
        "r < 0x20"
    | (u) "\<not> (q \<and> r = 0x22)" "\<not> IsPrint pr r" "\<not> r < 0x20" "r < 0x10000"
    | (U) "\<not> (q \<and> r = 0x22)" "\<not> IsPrint pr r" "\<not> r < 0x20" "\<not> r < 0x10000"
    by blast
  then show ?thesis
  proof cases
    case quote
    then show ?thesis by (simp add: escapeRune_def quoteMode_def)
  next
    case print
    with b show ?thesis
      by (auto simp: escapeRune_def quoteMode_def)
  next
    case letter
    then show ?thesis
      by (elim disjE) (simp_all add: escapeRune_def quoteMode_def)
  next
    case x
    have e: "escapeRune pr q r =
        0x5C # 0x78 # [lowerhex ! nat ((r mod 256) div 16), lowerhex ! nat ((r mod 256) mod 16)] @ []"
      using x by (simp add: escapeRune_def)
    show ?thesis
      unfolding e using unescape_x[OF _ hex2[OF r0 x(4)], of "quoteMode q" t] by simp
  next
    case u
    have e: "escapeRune pr q r = 0x5C # 0x75 # hexDigits r [12, 8, 4, 0] @ []"
      using u v by (auto simp: escapeRune_def)
    have "unhexAll 0 (hexDigits r [12, 8, 4, 0]) = Some r"
      using hex4[OF r0 u(4)] by (simp only: unhexAll_hexDigits)
    then show ?thesis
      unfolding e using unescape_u[of "hexDigits r [12, 8, 4, 0]" r "quoteMode q" t] v
      by (simp add: length_hexDigits)
  next
    case U
    have e: "escapeRune pr q r = 0x5C # 0x55 # hexDigits r [28, 24, 20, 16, 12, 8, 4, 0] @ []"
      using U v by (auto simp: escapeRune_def)
    have "unhexAll 0 (hexDigits r [28, 24, 20, 16, 12, 8, 4, 0]) = Some r"
      using hex8[OF r0 rmax] by (simp only: unhexAll_hexDigits)
    then show ?thesis
      unfolding e using unescape_U[of "hexDigits r [28, 24, 20, 16, 12, 8, 4, 0]" r "quoteMode q" t] v
      by (simp add: length_hexDigits)
  qed
qed

lemma unescape_concat:
  "\<forall>r \<in> set s. ValidRune r \<and> r \<noteq> 0x5C \<Longrightarrow>
   unescape (quoteMode q) (concat (map (escapeRune pr q) s)) = Some s"
  by (induction s) (simp_all add: unescape_escapeRune)

lemma runes_escape_bytes:
  "map runeOf (escapeStringForOutput_bytes pr s q) = escapeStringForOutput pr (map runeOf s) q"
  by (simp add: escapeStringForOutput_bytes_def escapeStringForOutput_def comp_def)

text \<open>
  Claim C6 (escape and un-escape), as amended. For every string, well-formed or not, and
  either value of \<^verbatim>\<open>escapeQuotes\<close>, every rune of the output of \<^verbatim>\<open>escapeStringForOutput\<close>
  is printable: the output has no raw control character. If the string is well-formed
  UTF-8 and has no backslash, the output is a valid escape sequence and un-escaping it,
  in the quote mode it was escaped in (double-quote mode when \<^verbatim>\<open>escapeQuotes\<close> is true, no
  quote when it is false), gives the string back. This covers the strings that contain
  a control character, and the strings that contain a double quote.
\<close>

theorem escape_bytes_printable_round_trip:
  "(\<forall>x \<in> set (map runeOf (escapeStringForOutput_bytes pr s q)). IsPrint pr x \<and> \<not> IsControl x)
   \<and> ((\<forall>c \<in> set s. \<exists>r. c = Valid r \<and> ValidRune r \<and> r \<noteq> 0x5C) \<longrightarrow>
        unescape_bytes (quoteMode q) (escapeStringForOutput_bytes pr s q) = Some s)"
proof (intro conjI impI ballI)
  fix x
  assume "x \<in> set (map runeOf (escapeStringForOutput_bytes pr s q))"
  then have "x \<in> set (concat (map (escapeRune pr q) (map runeOf s)))"
    by (simp only: runes_escape_bytes escape_eq_concat)
  then obtain r where "x \<in> set (escapeRune pr q r)"
    by auto
  then have "IsPrint pr x"
    by (rule escapeRune_printable)
  then show "IsPrint pr x" and "\<not> IsControl x"
    using IsPrint_not_special by blast+
next
  assume h: "\<forall>c \<in> set s. \<exists>r. c = Valid r \<and> ValidRune r \<and> r \<noteq> 0x5C"
  then have wf: "\<forall>c \<in> set s. \<exists>r. c = Valid r"
    and rs: "\<forall>r \<in> set (map runeOf s). ValidRune r \<and> r \<noteq> 0x5C"
    by auto
  have vr: "map (Valid \<circ> runeOf) s = s"
    using wf by (induction s) auto
  have "unescape (quoteMode q) (escapeStringForOutput pr (map runeOf s) q) = Some (map runeOf s)"
    using rs by (simp only: escape_eq_concat unescape_concat)
  then show "unescape_bytes (quoteMode q) (escapeStringForOutput_bytes pr s q) = Some s"
    by (simp add: unescape_bytes_def runes_escape_bytes vr)
qed

theorem escape_bytes_printable_round_trip_witness:
  "ValidRune 0x61 \<and> ValidRune 0x09 \<and> ValidRune 0x22 \<and> ValidRune 0x01 \<and> ValidRune 0x1F600
   \<and> IsControl 0x09
   \<and> escapeStringForOutput_bytes (\<lambda>r. False)
         [Valid 0x61, Valid 0x09, Valid 0x22, Valid 0x01, Valid 0x1F600] True
       = map Valid [0x61, 0x5C, 0x74, 0x5C, 0x22, 0x5C, 0x78, 0x30, 0x31,
          0x5C, 0x55, 0x30, 0x30, 0x30, 0x31, 0x66, 0x36, 0x30, 0x30]
   \<and> escapeStringForOutput_bytes (\<lambda>r. False)
         [Valid 0x61, Valid 0x09, Valid 0x22, Valid 0x01, Valid 0x1F600] False
       = map Valid [0x61, 0x5C, 0x74, 0x22, 0x5C, 0x78, 0x30, 0x31,
          0x5C, 0x55, 0x30, 0x30, 0x30, 0x31, 0x66, 0x36, 0x30, 0x30]
   \<and> IsPrint (\<lambda>r. False) 0x5C \<and> \<not> IsControl 0x5C
   \<and> unescape_bytes (quoteMode True) (escapeStringForOutput_bytes (\<lambda>r. False)
         [Valid 0x61, Valid 0x09, Valid 0x22, Valid 0x01, Valid 0x1F600] True)
       = Some [Valid 0x61, Valid 0x09, Valid 0x22, Valid 0x01, Valid 0x1F600]
   \<and> unescape_bytes (quoteMode False) (escapeStringForOutput_bytes (\<lambda>r. False)
         [Valid 0x61, Valid 0x09, Valid 0x22, Valid 0x01, Valid 0x1F600] False)
       = Some [Valid 0x61, Valid 0x09, Valid 0x22, Valid 0x01, Valid 0x1F600]"
proof -
  let ?s = "[Valid 0x61, Valid 0x09, Valid 0x22, Valid 0x01, Valid 0x1F600]"
  have e: "escapeStringForOutput_bytes (\<lambda>r. False) ?s True
       = map Valid [0x61, 0x5C, 0x74, 0x5C, 0x22, 0x5C, 0x78, 0x30, 0x31,
          0x5C, 0x55, 0x30, 0x30, 0x30, 0x31, 0x66, 0x36, 0x30, 0x30]"
    by code_simp
  have e': "escapeStringForOutput_bytes (\<lambda>r. False) ?s False
       = map Valid [0x61, 0x5C, 0x74, 0x22, 0x5C, 0x78, 0x30, 0x31,
          0x5C, 0x55, 0x30, 0x30, 0x30, 0x31, 0x66, 0x36, 0x30, 0x30]"
    by code_simp
  have h: "\<forall>c \<in> set ?s. \<exists>r. c = Valid r \<and> ValidRune r \<and> r \<noteq> 0x5C"
    by (simp add: ValidRune_def)
  have m: "0x5C \<in> set (map runeOf (escapeStringForOutput_bytes (\<lambda>r. False) ?s True))"
    unfolding e by simp
  from escape_bytes_printable_round_trip[of "\<lambda>r. False" ?s True] h m
  have a: "IsPrint (\<lambda>r. False) 0x5C \<and> \<not> IsControl 0x5C"
    and b: "unescape_bytes (quoteMode True) (escapeStringForOutput_bytes (\<lambda>r. False) ?s True) = Some ?s"
    by blast+
  from escape_bytes_printable_round_trip[of "\<lambda>r. False" ?s False] h
  have c: "unescape_bytes (quoteMode False) (escapeStringForOutput_bytes (\<lambda>r. False) ?s False) = Some ?s"
    by blast
  have v: "ValidRune 0x61 \<and> ValidRune 0x09 \<and> ValidRune 0x22 \<and> ValidRune 0x01 \<and> ValidRune 0x1F600
     \<and> IsControl 0x09"
    by (simp add: ValidRune_def IsControl_def)
  from v e e' a b c show ?thesis
    by blast
qed

text \<open>
  Claim C6 as stated promises the round trip for every string that contains a control
  character. Three things stand against it.
  \<^item> The code passes a backslash through as it is, so the three runes backslash, \<^verbatim>\<open>n\<close>,
    TAB and the two runes newline, TAB have the same output \<^verbatim>\<open>\n\t\<close>; un-escaping gives
    newline, TAB, which is not the first string.
  \<^item> \<^verbatim>\<open>range\<close> reads a byte that is not UTF-8 as U+FFFD, which is printable, and the
    builder receives U+FFFD: the string of the two bytes FF 09 is written as
    EF BF BD 5C 74, and un-escaping gives EF BF BD 09, which is not FF 09.
  \<^item> The quote mode has to be the one of the escaping: a double quote and a TAB, escaped
    with \<^verbatim>\<open>escapeQuotes\<close> false, cannot be read in double-quote mode, and escaped with
    \<^verbatim>\<open>escapeQuotes\<close> true cannot be read in the mode without quote.
\<close>

theorem escape_not_round_trip:
  "IsControl 0x09
   \<and> escapeStringForOutput_bytes (\<lambda>r. r = 0xFFFD) [Valid 0x5C, Valid 0x6E, Valid 0x09] True
       = [Valid 0x5C, Valid 0x6E, Valid 0x5C, Valid 0x74]
   \<and> escapeStringForOutput_bytes (\<lambda>r. r = 0xFFFD) [Valid 0x5C, Valid 0x6E, Valid 0x09] False
       = [Valid 0x5C, Valid 0x6E, Valid 0x5C, Valid 0x74]
   \<and> unescape_bytes (quoteMode True) [Valid 0x5C, Valid 0x6E, Valid 0x5C, Valid 0x74]
       = Some [Valid 0x0A, Valid 0x09]
   \<and> unescape_bytes (quoteMode False) [Valid 0x5C, Valid 0x6E, Valid 0x5C, Valid 0x74]
       = Some [Valid 0x0A, Valid 0x09]
   \<and> [Valid 0x0A, Valid 0x09] \<noteq> [Valid 0x5C, Valid 0x6E, Valid 0x09]
   \<and> bytesOf [Bad 0xFF, Valid 0x09] = [0xFF, 0x09]
   \<and> bytesOf (escapeStringForOutput_bytes (\<lambda>r. r = 0xFFFD) [Bad 0xFF, Valid 0x09] True)
       = [0xEF, 0xBF, 0xBD, 0x5C, 0x74]
   \<and> bytesOf (escapeStringForOutput_bytes (\<lambda>r. r = 0xFFFD) [Bad 0xFF, Valid 0x09] False)
       = [0xEF, 0xBF, 0xBD, 0x5C, 0x74]
   \<and> map_option bytesOf (unescape_bytes (quoteMode True)
         (escapeStringForOutput_bytes (\<lambda>r. r = 0xFFFD) [Bad 0xFF, Valid 0x09] True))
       = Some [0xEF, 0xBF, 0xBD, 0x09]
   \<and> map_option bytesOf (unescape_bytes (quoteMode False)
         (escapeStringForOutput_bytes (\<lambda>r. r = 0xFFFD) [Bad 0xFF, Valid 0x09] False))
       = Some [0xEF, 0xBF, 0xBD, 0x09]
   \<and> [0xEF, 0xBF, 0xBD, 0x09] \<noteq> [0xFF, 0x09 :: int]
   \<and> unescape_bytes 0x22 (escapeStringForOutput_bytes (\<lambda>r. r = 0xFFFD) [Valid 0x22, Valid 0x09] False)
       = None
   \<and> unescape_bytes 0 (escapeStringForOutput_bytes (\<lambda>r. r = 0xFFFD) [Valid 0x22, Valid 0x09] True)
       = None"
  by code_simp


section \<open>Custom pairs\<close>

lemma IndexByte_ge: "-1 \<le> IndexByte s c"
  by (induction s) (auto simp: Let_def)

lemma IndexByte_none: "(IndexByte s c = -1) = (c \<notin> set s)"
proof (induction s)
  case Nil
  show ?case by simp
next
  case (Cons x xs)
  with IndexByte_ge[of xs c] show ?case
    by (auto simp: Let_def)
qed

lemma splitLines_no_newline: "0x0A \<notin> set s \<Longrightarrow> splitLines s = [s]"
  by (induction s) auto

lemma splitLines_at:
  "IndexByte s 0x0A \<noteq> -1 \<Longrightarrow>
   splitLines s = take (nat (IndexByte s 0x0A)) s # splitLines (drop (nat (IndexByte s 0x0A) + 1) s)"
proof (induction s)
  case Nil
  then show ?case by simp
next
  case (Cons x xs)
  show ?case
  proof (cases "x = 0x0A")
    case True
    then show ?thesis by simp
  next
    case False
    with Cons.prems have n: "IndexByte xs 0x0A \<noteq> -1"
      by (auto simp: Let_def split: if_splits)
    then have "0 \<le> IndexByte xs 0x0A"
      using IndexByte_ge[of xs "0x0A"] by simp
    then have "nat (IndexByte xs 0x0A + 1) = Suc (nat (IndexByte xs 0x0A))"
      by simp
    with False n Cons.IH[OF n] show ?thesis
      by (simp add: Let_def)
  qed
qed

lemma writeIndent_lines:
  "writeIndent P s indent newline key =
     concat (map (\<lambda>line. indent @ ValueStyle P (escapeStringForOutput (PrintRanges P) line False) @ [0x0A])
               (butlast (splitLines s)))
     @ (if last (splitLines s) = [] then []
        else indent
          @ (case ValueStyles P key of Some vs \<Rightarrow> vs | None \<Rightarrow> ValueStyle P)
              (escapeStringForOutput (PrintRanges P) (last (splitLines s)) False)
          @ (if newline then [0x0A] else []))"
proof (induction P s indent newline key rule: writeIndent.induct)
  case (1 P s indent newline key)
  show ?case
  proof (cases "IndexByte s 0x0A = -1")
    case True
    then have "splitLines s = [s]"
      by (simp add: IndexByte_none splitLines_no_newline)
    with True show ?thesis
      by (subst writeIndent.simps) (simp split: option.splits)
  next
    case False
    have ne: "splitLines t \<noteq> []" for t
      by (induction t) auto
    note ih = "1.IH"[OF refl False, unfolded Suc_eq_plus1[symmetric]]
    from False show ?thesis
      by (subst writeIndent.simps)
        (simp add: Let_def ih splitLines_at[OF False] ne del: Suc_eq_plus1)
  qed
qed


lemma needsQuoting_iff: "needsQuoting s = (\<exists>r \<in> set s. r < 0x2D \<or> 0x7E < r)"
  by (induction s) (auto simp: isNormal_def)

text \<open>
  Claim C3 (a custom pair, by cases), as amended. Let \<open>key\<close> and \<open>val\<close> be the display
  forms of the key and of the value of a pair whose key is not reserved, \<open>skey\<close> the
  styled key, \<open>vstyle\<close> the value style for the key, \<open>sep\<close> the styled \<^verbatim>\<open>=\<close> and
  \<open>indent\<close> the styled indent marker. Then, in this order:
  \<^item> an empty \<open>key\<close>: the pair is skipped;
  \<^item> an empty \<open>val\<close>: \<^verbatim>\<open>key=""\<close>, after a space unless the pair is the first;
  \<^item> a newline in \<open>val\<close>: a line break and two spaces, the key, the separator, a line
    break, then each line of the value, escaped and prefixed by the indent marker;
    every line but the last is followed by a line break, the last line only when more
    pairs follow, and the empty piece after a final newline is not written;
  \<^item> otherwise, a rune outside \<^verbatim>\<open>'-'\<close>..\<^verbatim>\<open>'~'\<close> in \<open>val\<close>: the value between double
    quotes, each rune escaped with the quotes escaped;
  \<^item> otherwise the bare \<^verbatim>\<open>key=value\<close>.
\<close>

theorem custom_pair_rendering:
  assumes custom: "k \<notin> set (reservedKeys P)"
    and names: "key = Sprint P k" "val = Sprintf_plus_v P v"
      "skey = (case KeyStyles P key of Some keyStyle \<Rightarrow> keyStyle key | None \<Rightarrow> KeyStyle P key)"
      "vstyle = (case ValueStyles P key of Some vs \<Rightarrow> vs | None \<Rightarrow> ValueStyle P)"
      "sep = SeparatorStyle P separator" "indent = SeparatorStyle P indentSeparator"
  shows "(key = [] \<longrightarrow> textField P tf firstKey moreKeys k v = [])
    \<and> (key \<noteq> [] \<and> val = [] \<longrightarrow>
         textField P tf firstKey moreKeys k v = writeSpace firstKey @ skey @ sep @ vstyle [0x22, 0x22])
    \<and> (key \<noteq> [] \<and> 0x0A \<in> set val \<longrightarrow>
         textField P tf firstKey moreKeys k v =
           [0x0A, 0x20, 0x20] @ skey @ sep @ [0x0A]
           @ concat (map (\<lambda>line. indent
                            @ ValueStyle P (escapeStringForOutput (PrintRanges P) line False)
                            @ [0x0A])
                       (butlast (splitLines val)))
           @ (if last (splitLines val) = [] then []
              else indent
                @ vstyle (escapeStringForOutput (PrintRanges P) (last (splitLines val)) False)
                @ (if moreKeys then [0x0A] else [])))
    \<and> (key \<noteq> [] \<and> val \<noteq> [] \<and> 0x0A \<notin> set val \<and> needsQuoting val \<longrightarrow>
         textField P tf firstKey moreKeys k v =
           writeSpace firstKey @ skey @ sep
           @ vstyle ([0x22] @ concat (map (escapeRune (PrintRanges P) True) val) @ [0x22]))
    \<and> (key \<noteq> [] \<and> val \<noteq> [] \<and> 0x0A \<notin> set val \<and> \<not> needsQuoting val \<longrightarrow>
         textField P tf firstKey moreKeys k v = writeSpace firstKey @ skey @ sep @ vstyle val)
    \<and> needsQuoting val = (\<exists>r \<in> set val. r < 0x2D \<or> 0x7E < r)"
proof (intro conjI impI)
  note f = textField_custom[OF custom]
  show "textField P tf firstKey moreKeys k v = []" if "key = []"
    using that unfolding names by (simp add: f textPair_def)
  show "textField P tf firstKey moreKeys k v = writeSpace firstKey @ skey @ sep @ vstyle [0x22, 0x22]"
    if "key \<noteq> [] \<and> val = []"
    using that unfolding names by (simp add: f textPair_def Let_def)
  show "textField P tf firstKey moreKeys k v =
           [0x0A, 0x20, 0x20] @ skey @ sep @ [0x0A]
           @ concat (map (\<lambda>line. indent
                            @ ValueStyle P (escapeStringForOutput (PrintRanges P) line False)
                            @ [0x0A])
                       (butlast (splitLines val)))
           @ (if last (splitLines val) = [] then []
              else indent
                @ vstyle (escapeStringForOutput (PrintRanges P) (last (splitLines val)) False)
                @ (if moreKeys then [0x0A] else []))"
    if h: "key \<noteq> [] \<and> 0x0A \<in> set val"
  proof -
    from h have "val \<noteq> []"
      by auto
    with h show ?thesis
      unfolding names by (simp add: f textPair_def Let_def writeIndent_lines)
  qed
  show "textField P tf firstKey moreKeys k v =
           writeSpace firstKey @ skey @ sep
           @ vstyle ([0x22] @ concat (map (escapeRune (PrintRanges P) True) val) @ [0x22])"
    if "key \<noteq> [] \<and> val \<noteq> [] \<and> 0x0A \<notin> set val \<and> needsQuoting val"
    using that unfolding names by (simp add: f textPair_def Let_def escape_eq_concat)
  show "textField P tf firstKey moreKeys k v = writeSpace firstKey @ skey @ sep @ vstyle val"
    if "key \<noteq> [] \<and> val \<noteq> [] \<and> 0x0A \<notin> set val \<and> \<not> needsQuoting val"
    using that unfolding names by (simp add: f textPair_def Let_def)
  show "needsQuoting val = (\<exists>r \<in> set val. r < 0x2D \<or> 0x7E < r)"
    by (rule needsQuoting_iff)
qed


theorem custom_pair_rendering_witness:
  "Str [] \<notin> set (reservedKeys samplePkg) \<and> Sprint samplePkg (Str []) = []
   \<and> textField samplePkg [] False True (Str []) (Str (str ''v'')) = []
   \<and> Str (str ''k'') \<notin> set (reservedKeys samplePkg) \<and> Sprint samplePkg (Str (str ''k'')) \<noteq> []
   \<and> Sprintf_plus_v samplePkg (Str []) = []
   \<and> textField samplePkg [] False True (Str (str ''k'')) (Str []) = str '' k=\"\"''
   \<and> 0x0A \<in> set (Sprintf_plus_v samplePkg (Str (str ''line1'' @ [0x0A] @ str ''line2'')))
   \<and> textField samplePkg [] False True (Str (str ''k'')) (Str (str ''line1'' @ [0x0A] @ str ''line2''))
       = [0x0A, 0x20, 0x20] @ str ''k='' @ [0x0A] @ indentSeparator @ str ''line1'' @ [0x0A]
         @ indentSeparator @ str ''line2'' @ [0x0A]
   \<and> needsQuoting (Sprintf_plus_v samplePkg (Str (str ''x \"y\"'')))
   \<and> textField samplePkg [] False True (Str (str ''k'')) (Str (str ''x \"y\"''))
       = str '' k=\"x '' @ [0x5C, 0x22, 0x79, 0x5C, 0x22, 0x22]
   \<and> \<not> needsQuoting (Sprintf_plus_v samplePkg (Str (str ''val1'')))
   \<and> textField samplePkg [] False True (Str (str ''k'')) (Str (str ''val1'')) = str '' k=val1''"
proof -
  have c0: "Str [] \<notin> set (reservedKeys samplePkg)"
    and ck: "Str (str ''k'') \<notin> set (reservedKeys samplePkg)"
    by code_simp+
  note t0 = custom_pair_rendering[OF c0 refl refl refl refl refl refl, of "[]" False True "Str (str ''v'')"]
  note t1 = custom_pair_rendering[OF ck refl refl refl refl refl refl, of "[]" False True "Str []"]
  note t2 = custom_pair_rendering[OF ck refl refl refl refl refl refl, of "[]" False True
      "Str (str ''line1'' @ [0x0A] @ str ''line2'')"]
  note t3 = custom_pair_rendering[OF ck refl refl refl refl refl refl, of "[]" False True
      "Str (str ''x \"y\"'')"]
  note t4 = custom_pair_rendering[OF ck refl refl refl refl refl refl, of "[]" False True
      "Str (str ''val1'')"]
  have h0: "Sprint samplePkg (Str []) = []"
    and hk: "Sprint samplePkg (Str (str ''k'')) \<noteq> []"
    and h1: "Sprintf_plus_v samplePkg (Str []) = []"
    and h2: "0x0A \<in> set (Sprintf_plus_v samplePkg (Str (str ''line1'' @ [0x0A] @ str ''line2'')))"
    and h3: "Sprintf_plus_v samplePkg (Str (str ''x \"y\"'')) \<noteq> []"
      "0x0A \<notin> set (Sprintf_plus_v samplePkg (Str (str ''x \"y\"'')))"
      "needsQuoting (Sprintf_plus_v samplePkg (Str (str ''x \"y\"'')))"
    and h4: "Sprintf_plus_v samplePkg (Str (str ''val1'')) \<noteq> []"
      "0x0A \<notin> set (Sprintf_plus_v samplePkg (Str (str ''val1'')))"
      "\<not> needsQuoting (Sprintf_plus_v samplePkg (Str (str ''val1'')))"
    by code_simp+
  have r0: "textField samplePkg [] False True (Str []) (Str (str ''v'')) = []"
    using t0 h0 by blast
  have r1: "textField samplePkg [] False True (Str (str ''k'')) (Str []) = str '' k=\"\"''"
    using t1[THEN conjunct2, THEN conjunct1] hk h1 by code_simp
  have r2: "textField samplePkg [] False True (Str (str ''k'')) (Str (str ''line1'' @ [0x0A] @ str ''line2''))
       = [0x0A, 0x20, 0x20] @ str ''k='' @ [0x0A] @ indentSeparator @ str ''line1'' @ [0x0A]
         @ indentSeparator @ str ''line2'' @ [0x0A]"
    using t2[THEN conjunct2, THEN conjunct2, THEN conjunct1] hk h2 by code_simp
  have r3: "textField samplePkg [] False True (Str (str ''k'')) (Str (str ''x \"y\"''))
       = str '' k=\"x '' @ [0x5C, 0x22, 0x79, 0x5C, 0x22, 0x22]"
    using t3[THEN conjunct2, THEN conjunct2, THEN conjunct2, THEN conjunct1] hk h3 by code_simp
  have r4: "textField samplePkg [] False True (Str (str ''k'')) (Str (str ''val1'')) = str '' k=val1''"
    using t4[THEN conjunct2, THEN conjunct2, THEN conjunct2, THEN conjunct2, THEN conjunct1] hk h4
    by code_simp
  show ?thesis
    using c0 ck h0 hk h1 h2 h3(3) h4(3) r0 r1 r2 r3 r4 by blast
qed

text \<open>
  Claim C3 as stated says that every line of the block is followed by its own line
  break. For
  the last pair of an entry the last line is not: \<^verbatim>\<open>writeIndent\<close> is called with
  \<^verbatim>\<open>newline = moreKeys = false\<close>, and the only newline after \<^verbatim>\<open>line2\<close> is the one that
  ends every entry.
\<close>

theorem block_last_line_has_no_line_break:
  "Str (str ''trace'') \<notin> set (reservedKeys samplePkg)
   \<and> textField samplePkg [] False False (Str (str ''trace''))
         (Str (str ''line1'' @ [0x0A] @ str ''line2''))
       = [0x0A, 0x20, 0x20] @ str ''trace='' @ [0x0A] @ indentSeparator @ str ''line1'' @ [0x0A]
         @ indentSeparator @ str ''line2''
   \<and> Info samplePkg [] sampleLogger (Str (str ''m''))
         [Str (str ''trace''), Str (str ''line1'' @ [0x0A] @ str ''line2'')]
       = Inr (Some (str ''INFO m'' @ [0x0A, 0x20, 0x20] @ str ''trace='' @ [0x0A]
                    @ indentSeparator @ str ''line1'' @ [0x0A]
                    @ indentSeparator @ str ''line2'' @ [0x0A]))"
  by code_simp


section \<open>The order of an entry\<close>

lemma textPieces_append:
  "even (length xs) \<Longrightarrow>
   textPieces P tf first after (xs @ ys) =
     textPieces P tf first (ys \<noteq> [] \<or> after) xs @ textPieces P tf (first \<and> xs = []) after ys"
proof (induction P tf first after xs rule: textPieces.induct)
  case (1 P tf firstKey after k v rest)
  have "(rest @ ys \<noteq> [] \<or> after) = (rest \<noteq> [] \<or> ys \<noteq> [] \<or> after)"
    by auto
  with 1 show ?case
    by (simp del: append_is_Nil_conv)
qed simp_all

lemma textPairs_pieces:
  "even (length xs) \<Longrightarrow> textPairs P tf first xs = Inr (concat (textPieces P tf first False xs))"
  by (induction P tf first xs rule: textPairs.induct) auto

lemma length_textPieces:
  "even (length xs) \<Longrightarrow> length (textPieces P tf first after xs) = length xs div 2"
  by (induction P tf first after xs rule: textPieces.induct) auto

lemma textPieces_nth:
  "even (length xs) \<Longrightarrow> i < length xs div 2 \<Longrightarrow>
   textPieces P tf first after xs ! i =
     textField P tf (first \<and> i = 0) (i + 1 < length xs div 2 \<or> after) (xs ! (2 * i)) (xs ! (2 * i + 1))"
proof (induction P tf first after xs arbitrary: i rule: textPieces.induct)
  case (1 P tf firstKey after k v rest)
  show ?case
  proof (cases i)
    case 0
    with "1.prems" show ?thesis
      by (cases rest) auto
  next
    case (Suc j)
    with "1.prems" "1.IH"[of j] show ?thesis
      by simp
  qed
qed simp_all

lemma textPair_shape:
  "Sprint P k = [] \<Longrightarrow> textPair P f m k v = []"
  "Sprint P k \<noteq> [] \<Longrightarrow>
   \<exists>a b. textPair P f m k v =
     a @ (case KeyStyles P (Sprint P k) of Some keyStyle \<Rightarrow> keyStyle (Sprint P k)
          | None \<Rightarrow> KeyStyle P (Sprint P k))
       @ SeparatorStyle P separator @ b"
proof -
  show "textPair P f m k v = []" if "Sprint P k = []"
    using that by (simp add: textPair_def)
  show "\<exists>a b. textPair P f m k v =
     a @ (case KeyStyles P (Sprint P k) of Some keyStyle \<Rightarrow> keyStyle (Sprint P k)
          | None \<Rightarrow> KeyStyle P (Sprint P k))
       @ SeparatorStyle P separator @ b" if ne: "Sprint P k \<noteq> []"
  proof -
    define K where "K = (case KeyStyles P (Sprint P k) of Some keyStyle \<Rightarrow> keyStyle (Sprint P k)
          | None \<Rightarrow> KeyStyle P (Sprint P k))"
    define S where "S = SeparatorStyle P separator"
    have "(\<exists>b. textPair P f m k v = writeSpace f @ K @ S @ b)
        \<or> (\<exists>b. textPair P f m k v = [0x0A, 0x20, 0x20] @ K @ S @ b)"
      using ne unfolding textPair_def Let_def K_def S_def by simp
    then show ?thesis
      unfolding K_def S_def by blast
  qed
qed

text \<open>
  Claim C4 (order of the fields), as amended. For an accepted entry of the text
  formatter whose bound fields and call key/values have even length:
  \<^item> the assembled sequence is \<open>R @ F\<close>: the reserved pairs that are present, in the
    order timestamp, level, caller, prefix, message, then \<open>F\<close>, the bound fields in
    binding order (\<^verbatim>\<open>With\<close> appends) followed by the call's own pairs in call order;
  \<^item> the line is the pieces of the pairs of \<open>R\<close>, then the pieces of the pairs of \<open>F\<close>,
    one piece per pair and in the order of the sequence, then the newline;
  \<^item> the piece of a custom pair is empty when the key's display form is empty, and
    otherwise holds the styled key followed by the separator (it is the \<^verbatim>\<open>key=value\<close> or
    the block of \<open>custom_pair_rendering\<close>).
\<close>

theorem entry_order:
  assumes acc: "w l \<noteq> Discard" "Level_ord (level l) \<le> Level_ord lv" "formatter l = TextFormatter"
    and ev: "even (length (keyvals l))" "even (length kvs0)"
    and R: "R = (if timestamp l then [TimestampKey P, TimeV (timeFunc l ())] else [])
              @ (if lv \<noteq> noLevel then [LevelKey P, LevelV lv] else [])
              @ (if caller l then
                   [CallerKey P,
                    Str (case fillLoc (helpers l) (logFrame # stack) (callerOffset l + 2) of
                           (file, line, fn) \<Rightarrow>
                             [0x3C] @ trimCallerPath file @ [0x3A] @ Itoa line @ [0x3E])]
                 else [])
              @ (if prefix l \<noteq> [] then [PrefixKey P, Str (prefix l)] else [])
              @ (if msg \<noteq> Nil then [MessageKey P, Str (Sprint P msg)] else [])"
    and F: "F = keyvals l @ kvs0"
    and n: "n = length F div 2"
    and pieces: "pieces = textPieces P (timeFormat l) (R = []) False F"
  shows "fst (log_kvs P stack l lv msg kvs0) = R @ F
    \<and> keyvals (With l0 bound) = keyvals l0 @ bound
    \<and> log P stack l lv msg kvs0 =
        Inr (Some (concat (textPieces P (timeFormat l) True (F \<noteq> []) R) @ concat pieces @ [0x0A]))
    \<and> length pieces = n
    \<and> (\<forall>i < n. pieces ! i =
          textField P (timeFormat l) (R = [] \<and> i = 0) (i + 1 < n) (F ! (2 * i)) (F ! (2 * i + 1)))
    \<and> (\<forall>i < n. F ! (2 * i) \<notin> set (reservedKeys P) \<longrightarrow>
          (if Sprint P (F ! (2 * i)) = [] then pieces ! i = []
           else \<exists>a b. pieces ! i =
                  a @ (case KeyStyles P (Sprint P (F ! (2 * i))) of
                         Some keyStyle \<Rightarrow> keyStyle (Sprint P (F ! (2 * i)))
                       | None \<Rightarrow> KeyStyle P (Sprint P (F ! (2 * i))))
                    @ SeparatorStyle P separator @ b))"
proof -
  have evF: "even (length F)"
    using ev F by simp
  have evR: "even (length R)"
    unfolding R by simp
  have kvs: "fst (log_kvs P stack l lv msg kvs0) = R @ F"
    unfolding R F log_kvs_def Let_def by (simp split: prod.splits)
  have "textPairs P (timeFormat l) True (R @ F)
      = Inr (concat (textPieces P (timeFormat l) True False (R @ F)))"
    using evF evR by (intro textPairs_pieces) simp
  then have fmt: "textFormatter P (timeFormat l) (R @ F)
      = Inr (concat (textPieces P (timeFormat l) True (F \<noteq> []) R) @ concat pieces @ [0x0A])"
    unfolding pieces by (simp add: textFormatter_pairs textPieces_append[OF evR])
  have lg: "log P stack l lv msg kvs0 =
        Inr (Some (concat (textPieces P (timeFormat l) True (F \<noteq> []) R) @ concat pieces @ [0x0A]))"
  proof -
    obtain a b where ab: "log_kvs P stack l lv msg kvs0 = (a, b)"
      by (cases "log_kvs P stack l lv msg kvs0")
    with kvs have "a = R @ F"
      by simp
    with ab acc fmt show ?thesis
      by (simp add: log_def)
  qed
  have len: "length pieces = n"
    unfolding pieces n by (rule length_textPieces[OF evF])
  have nth: "pieces ! i =
      textField P (timeFormat l) (R = [] \<and> i = 0) (i + 1 < n) (F ! (2 * i)) (F ! (2 * i + 1))"
    if "i < n" for i
    using that textPieces_nth[OF evF, of i P "timeFormat l" "R = []" False]
    unfolding pieces n by simp
  have shape: "if Sprint P (F ! (2 * i)) = [] then pieces ! i = []
           else \<exists>a b. pieces ! i =
                  a @ (case KeyStyles P (Sprint P (F ! (2 * i))) of
                         Some keyStyle \<Rightarrow> keyStyle (Sprint P (F ! (2 * i)))
                       | None \<Rightarrow> KeyStyle P (Sprint P (F ! (2 * i))))
                    @ SeparatorStyle P separator @ b"
    if "i < n" and c: "F ! (2 * i) \<notin> set (reservedKeys P)" for i
    unfolding nth[OF that(1)] textField_custom[OF c]
    using textPair_shape[of P "F ! (2 * i)"] by (simp split: if_splits)
  have w: "keyvals (With l0 bound) = keyvals l0 @ bound"
    by (simp add: With_def)
  have nth': "\<forall>i < n. pieces ! i =
      textField P (timeFormat l) (R = [] \<and> i = 0) (i + 1 < n) (F ! (2 * i)) (F ! (2 * i + 1))"
    using nth by blast
  have shape': "\<forall>i < n. F ! (2 * i) \<notin> set (reservedKeys P) \<longrightarrow>
          (if Sprint P (F ! (2 * i)) = [] then pieces ! i = []
           else \<exists>a b. pieces ! i =
                  a @ (case KeyStyles P (Sprint P (F ! (2 * i))) of
                         Some keyStyle \<Rightarrow> keyStyle (Sprint P (F ! (2 * i)))
                       | None \<Rightarrow> KeyStyle P (Sprint P (F ! (2 * i))))
                    @ SeparatorStyle P separator @ b)"
    using shape by blast
  show ?thesis
    using kvs w lg len nth' shape' by (intro conjI)
qed


theorem entry_order_witness:
  "w sampleDerived \<noteq> Discard \<and> Level_ord (level sampleDerived) \<le> Level_ord InfoLevel
   \<and> formatter sampleDerived = TextFormatter \<and> even (length (keyvals sampleDerived))
   \<and> even (length [Str (str ''key1''), Str (str ''val1'')])
   \<and> fst (log_kvs samplePkg [methodFrame ''Info''] sampleDerived InfoLevel (Str (str ''info''))
          [Str (str ''key1''), Str (str ''val1'')])
       = [LevelKey samplePkg, LevelV InfoLevel, MessageKey samplePkg, Str (str ''info''),
          Str (str ''service''), Str (str ''api''), Str (str ''key1''), Str (str ''val1'')]
   \<and> log samplePkg [methodFrame ''Info''] sampleDerived InfoLevel (Str (str ''info''))
          [Str (str ''key1''), Str (str ''val1'')]
       = Inr (Some (str ''INFO info service=api key1=val1'' @ [0x0A]))
   \<and> (keyvals sampleDerived @ [Str (str ''key1''), Str (str ''val1'')]) ! (2 * 1)
       \<notin> set (reservedKeys samplePkg)
   \<and> textPieces samplePkg (timeFormat sampleDerived) False False
         (keyvals sampleDerived @ [Str (str ''key1''), Str (str ''val1'')])
       = [str '' service=api'', str '' key1=val1'']"
proof -
  let ?C = "[Str (str ''key1''), Str (str ''val1'')]"
  let ?R = "[LevelKey samplePkg, LevelV InfoLevel, MessageKey samplePkg, Str (str ''info'')]"
  have a: "w sampleDerived \<noteq> Discard" "Level_ord (level sampleDerived) \<le> Level_ord InfoLevel"
    "formatter sampleDerived = TextFormatter"
    and e: "even (length (keyvals sampleDerived))" "even (length ?C)"
    by (simp_all add: sampleDerived_def With_def sampleLogger_def)
  have R: "?R = (if timestamp sampleDerived then [TimestampKey samplePkg, TimeV (timeFunc sampleDerived ())] else [])
              @ (if InfoLevel \<noteq> noLevel then [LevelKey samplePkg, LevelV InfoLevel] else [])
              @ (if caller sampleDerived then
                   [CallerKey samplePkg,
                    Str (case fillLoc (helpers sampleDerived) (logFrame # [methodFrame ''Info''])
                                (callerOffset sampleDerived + 2) of
                           (file, line, fn) \<Rightarrow>
                             [0x3C] @ trimCallerPath file @ [0x3A] @ Itoa line @ [0x3E])]
                 else [])
              @ (if prefix sampleDerived \<noteq> [] then [PrefixKey samplePkg, Str (prefix sampleDerived)] else [])
              @ (if Str (str ''info'') \<noteq> Nil then [MessageKey samplePkg, Str (Sprint samplePkg (Str (str ''info'')))] else [])"
    by (simp add: sampleDerived_def With_def sampleLogger_def Sprint_def)
  note t = entry_order[OF a e R refl refl refl]
  have c: "(keyvals sampleDerived @ ?C) ! (2 * 1) \<notin> set (reservedKeys samplePkg)"
    by code_simp
  have p: "textPieces samplePkg (timeFormat sampleDerived) False False (keyvals sampleDerived @ ?C)
       = [str '' service=api'', str '' key1=val1'']"
    by code_simp
  have r: "?R @ keyvals sampleDerived @ ?C = [LevelKey samplePkg, LevelV InfoLevel, MessageKey samplePkg, Str (str ''info''),
          Str (str ''service''), Str (str ''api''), Str (str ''key1''), Str (str ''val1'')]"
    by (simp add: sampleDerived_def With_def sampleLogger_def)
  have o: "concat (textPieces samplePkg (timeFormat sampleDerived) True (keyvals sampleDerived @ ?C \<noteq> []) ?R)
      @ concat (textPieces samplePkg (timeFormat sampleDerived) (?R = []) False (keyvals sampleDerived @ ?C))
      @ [0x0A] = str ''INFO info service=api key1=val1'' @ [0x0A]"
    by code_simp
  from t have "fst (log_kvs samplePkg [methodFrame ''Info''] sampleDerived InfoLevel (Str (str ''info'')) ?C)
       = ?R @ keyvals sampleDerived @ ?C"
    and "log samplePkg [methodFrame ''Info''] sampleDerived InfoLevel (Str (str ''info'')) ?C
       = Inr (Some (concat (textPieces samplePkg (timeFormat sampleDerived) True (keyvals sampleDerived @ ?C \<noteq> []) ?R)
      @ concat (textPieces samplePkg (timeFormat sampleDerived) (?R = []) False (keyvals sampleDerived @ ?C))
      @ [0x0A]))"
    by blast+
  then show ?thesis
    unfolding r o using a e c p by blast
qed

text \<open>
  Claim C4 as stated says that exactly one \<^verbatim>\<open>key=value\<close> or block is rendered per custom
  pair.
  The custom pair with the empty key is skipped: nothing of it is in the line.
\<close>

theorem empty_key_pair_not_rendered:
  "Str [] \<notin> set (reservedKeys samplePkg)
   \<and> Info samplePkg [] sampleLogger (Str (str ''m'')) [Str [], Str (str ''v'')]
       = Inr (Some (str ''INFO m'' @ [0x0A]))"
  by code_simp

end
